theory Spec2Isabelle
  imports Complex_Main "HOL-Library.Product_Lexorder" "HOL-Library.Sublist"
begin

section \<open>Data model of search.py\<close>

text \<open>
  Actions are Python strings (\<open>'UP'\<close>, \<open>'DOWN'\<close>, \<open>'LEFT'\<close>, \<open>'RIGHT'\<close>); the action of
  a root node is Python's \<open>None\<close>, so a node carries a \<open>string option\<close>. Path costs are
  Python numbers: an \<open>int\<close> for three of the four cost functions and a \<open>float\<close> for the
  fourth. A node holds the value of the number, a rational.

  The exceptions that the functions of search.py raise are values of the type \<open>error\<close>.
  Its last value is not an exception of Python: \<open>InfiniteCost\<close> ends a run in which a
  node would be given the path cost \<open>inf\<close>, which a rational does not hold.
\<close>

datatype error =
  ValueError | KeyError | IndexError | ZeroDivisionError | OverflowError | InfiniteCost

text \<open>
  class Node: the fields set by \<open>Node.__init__\<close>. The parent is a back reference
  (\<open>None\<close> at the root).
\<close>

datatype 's node =
  Node (state: 's) (parent: "'s node option") (action: "string option")
       (path_cost: rat) (depth: nat)

text \<open>
  \<open>Node.__init__(state, parent=None, action=None, path_cost=0)\<close>: depth is 0, and
  \<open>parent.depth + 1\<close> when a parent is given (a Node object is always truthy).
\<close>

definition Node_init :: "'s \<Rightarrow> 's node option \<Rightarrow> string option \<Rightarrow> rat \<Rightarrow> 's node" where
  "Node_init s par act c =
     Node s par act c (case par of None \<Rightarrow> 0 | Some p \<Rightarrow> depth p + 1)"

text \<open>
  class Problem: the operations a search consumes. \<open>child_node\<close> passes the parent node
  itself (not its cost) as the first argument of \<open>path_cost\<close>, so the cost function sees
  the whole history of the parent.
\<close>

record 's problem =
  initial :: 's
  actions :: "'s \<Rightarrow> string list"
  result :: "'s \<Rightarrow> string \<Rightarrow> 's"
  goal_test :: "'s \<Rightarrow> bool"
  path_cost_fn :: "'s node \<Rightarrow> 's \<Rightarrow> string \<Rightarrow> 's \<Rightarrow> rat"

definition child_node :: "'s problem \<Rightarrow> 's node \<Rightarrow> string \<Rightarrow> 's node" where
  "child_node problem self act =
     (let next_state = result problem (state self) act;
          pathCost = path_cost_fn problem self (state self) act next_state
      in Node_init next_state (Some self) (Some act) pathCost)"

text \<open>
  \<open>Node.expand\<close>: \<open>actions.sort(key=lambda action: 0 if action == 'LEFT' else 1)\<close>;
  Python's sort is stable, as is \<open>sort_key\<close>.
\<close>

definition left_key :: "string \<Rightarrow> nat" where
  "left_key a = (if a = ''LEFT'' then 0 else 1)"

definition expand :: "'s problem \<Rightarrow> 's node \<Rightarrow> 's node list" where
  "expand problem self =
     map (child_node problem self) (sort_key left_key (actions problem (state self)))"

text \<open>
  \<open>Node.path\<close>: the loop \<open>while node: path_back.append(node); node = node.parent\<close>,
  then \<open>list(reversed(path_back))\<close>.
\<close>

fun path_back :: "'s node \<Rightarrow> 's node list" where
  "path_back (Node s par act c d) =
     Node s par act c d # (case par of None \<Rightarrow> [] | Some p \<Rightarrow> path_back p)"

definition path :: "'s node \<Rightarrow> 's node list" where
  "path self = rev (path_back self)"

text \<open>\<open>Node.solution\<close>: \<open>[node.action for node in self.path()[1:]]\<close>.\<close>

definition solution :: "'s node \<Rightarrow> string option list" where
  "solution self = map action (tl (path self))"

section \<open>The vacuum problem\<close>

subsection \<open>Turn cost\<close>

definition directions :: "string list" where
  "directions = [''UP'', ''RIGHT'', ''DOWN'', ''LEFT'']"

text \<open>
  \<open>list.index\<close>: position of the first occurrence. Python raises ValueError for a value
  that does not occur; \<open>computeTurnCost\<close> only calls it after the membership test.
\<close>

fun index :: "'a list \<Rightarrow> 'a \<Rightarrow> int" where
  "index [] x = 0"
| "index (y # ys) x = (if y = x then 0 else 1 + index ys x)"

definition computeTurnCost :: "string option \<Rightarrow> string option \<Rightarrow> int" where
  "computeTurnCost action1 act =
     (if action1 \<notin> Some ` set directions \<or> act \<notin> Some ` set directions then 0
      else (let index1 = index directions (the action1);
                index2 = index directions (the act);
                tc = \<bar>index2 - index1\<bar>;
                val1 = min tc (4 - tc) * 3
            in val1))"

text \<open>
  The wording of the specification: the minimal number of quarter turns between two
  positions on the cycle of four directions.
\<close>

definition rotation_distance :: "int \<Rightarrow> int \<Rightarrow> int" where
  "rotation_distance i j = min ((i - j) mod 4) ((j - i) mod 4)"

subsection \<open>Environment and problem objects\<close>

text \<open>
  The environment, the things in it and the agent are objects of the modules \<open>agents\<close>
  and \<open>utils\<close>, which search.py imports. The record below holds the attributes that
  search.py reads or writes. The two environment methods it calls, \<open>things_near\<close> and
  \<open>some_things_at\<close>, are parameters: \<open>things_near loc\<close> is the list of the things
  \<open>slot[0]\<close> of the slots returned for \<open>loc\<close>, and \<open>some_things_at loc k\<close> tells
  whether a thing of class \<open>k\<close> is at \<open>loc\<close>. A location is a pair of integers.
\<close>

datatype kind = Wall | Dirt | Other

record thing =
  kind :: kind
  location :: "int \<times> int"

record agent = thing +
  direction :: string

record env =
  agent :: agent
  things :: "thing list"
  things_near :: "int \<times> int \<Rightarrow> thing list"
  some_things_at :: "int \<times> int \<Rightarrow> kind \<Rightarrow> bool"
  costFunc :: string
  searchType :: string
  args :: "string \<rightharpoonup> string"

text \<open>
  class VacuumPlanning. \<open>self.agent\<close> is the object \<open>env.agent\<close> and \<open>self.map\<close> is the
  list object \<open>env.things\<close>; the model keeps one copy of each, inside \<open>env\<close>, so that a
  write through one name is seen through the other.
\<close>

record VacuumPlanning =
  env :: env
  vp_state :: "int \<times> int"
  vp_initial :: "int \<times> int"
  vp_searchType :: string

definition vp_agent :: "VacuumPlanning \<Rightarrow> agent" where
  "vp_agent self = agent (env self)"

definition vp_map :: "VacuumPlanning \<Rightarrow> thing list" where
  "vp_map self = things (env self)"

definition VacuumPlanning_init :: "env \<Rightarrow> string \<Rightarrow> VacuumPlanning" where
  "VacuumPlanning_init e searchtype =
     \<lparr> env = e\<lparr>agent := (agent e)\<lparr>direction := ''UP''\<rparr>\<rparr>,
       vp_state = location (agent e),
       vp_initial = location (agent e),
       vp_searchType = searchtype \<rparr>"

subsection \<open>actions, result, goal\_test\<close>

text \<open>\<open>list.remove(x)\<close> deletes the first occurrence and raises ValueError without one.\<close>

definition list_remove :: "'a \<Rightarrow> 'a list \<Rightarrow> error + 'a list" where
  "list_remove x xs = (if x \<in> set xs then Inr (remove1 x xs) else Inl ValueError)"

definition and_then :: "error + 'a \<Rightarrow> ('a \<Rightarrow> error + 'b) \<Rightarrow> error + 'b" where
  "and_then r f = (case r of Inl e \<Rightarrow> Inl e | Inr x \<Rightarrow> f x)"

definition remove_when :: "bool \<Rightarrow> string \<Rightarrow> string list \<Rightarrow> error + string list" where
  "remove_when b a possible_actions =
     (if b then list_remove a possible_actions else Inr possible_actions)"

text \<open>The body of \<open>for slot in possible_neighbors\<close>, with its four tests in order.\<close>

definition actions_slot :: "int \<times> int \<Rightarrow> thing \<Rightarrow> string list \<Rightarrow> error + string list" where
  "actions_slot st slot possible_actions =
     (if kind slot = Wall then
        (let x = fst (location slot); y = snd (location slot) in
         and_then (remove_when (x = fst st \<and> y = snd st + 1) ''UP'' possible_actions) (\<lambda>p1.
         and_then (remove_when (x = fst st \<and> y = snd st - 1) ''DOWN'' p1) (\<lambda>p2.
         and_then (remove_when (x = fst st + 1 \<and> y = snd st) ''RIGHT'' p2) (\<lambda>p3.
         remove_when (x = fst st - 1 \<and> y = snd st) ''LEFT'' p3))))
      else Inr possible_actions)"

fun actions_loop :: "int \<times> int \<Rightarrow> thing list \<Rightarrow> string list \<Rightarrow> error + string list" where
  "actions_loop st [] possible_actions = Inr possible_actions"
| "actions_loop st (slot # slots) possible_actions =
     and_then (actions_slot st slot possible_actions) (actions_loop st slots)"

definition VacuumPlanning_actions :: "VacuumPlanning \<Rightarrow> int \<times> int \<Rightarrow> error + string list" where
  "VacuumPlanning_actions self st =
     actions_loop st (things_near (env self) st) [''UP'', ''DOWN'', ''LEFT'', ''RIGHT'']"

text \<open>
  \<open>result\<close> first assigns \<open>self.agent.direction = action\<close>, then builds the new state.
  The model returns the new state together with the problem object after the assignment.
\<close>

definition VacuumPlanning_result ::
  "VacuumPlanning \<Rightarrow> int \<times> int \<Rightarrow> string \<Rightarrow> (int \<times> int) \<times> VacuumPlanning" where
  "VacuumPlanning_result self st act =
     (let self' = self\<lparr>env := (env self)\<lparr>agent := (agent (env self))\<lparr>direction := act\<rparr>\<rparr>\<rparr>;
          new_state =
            (if act = ''RIGHT'' then (fst st + 1, snd st)
             else if act = ''LEFT'' then (fst st - 1, snd st)
             else if act = ''UP'' then (fst st, snd st + 1)
             else if act = ''DOWN'' then (fst st, snd st - 1)
             else st)
      in (new_state, self'))"

definition VacuumPlanning_goal_test :: "VacuumPlanning \<Rightarrow> int \<times> int \<Rightarrow> bool" where
  "VacuumPlanning_goal_test self st = some_things_at (env self) st Dirt"

subsection \<open>Python numbers\<close>

text \<open>
  A Python \<open>float\<close> is a binary64 number of IEEE 754. Its finite values are the rationals
  \<open>m * 2 ^ e\<close> with \<open>\<bar>m\<bar> < 2 ^ 53\<close> and \<open>- 1074 \<le> e \<le> 971\<close>; an operation computes the
  exact result and rounds it to the nearest of them, a tie to the one with the even \<open>m\<close>.

  \<open>bit_length\<close> is \<open>int.bit_length\<close> on the positive integers, \<open>float_exponent x\<close> is the
  \<open>e\<close> with \<open>2 ^ e \<le> \<bar>x\<bar> < 2 ^ (e + 1)\<close>, and \<open>round_float x\<close> rounds \<open>x\<close> to 53 significant
  bits, or to a multiple of \<open>2 ^ - 1074\<close> where \<open>x\<close> is smaller than the normal numbers.
  A rounded value above \<open>float_max\<close> is outside the finite floats.
\<close>

function bit_length :: "int \<Rightarrow> int" where
  "bit_length n = (if n \<le> 0 then 0 else 1 + bit_length (n div 2))"
  by pat_completeness auto
termination by (relation "measure nat") auto

declare bit_length.simps [simp del]

definition pow2 :: "int \<Rightarrow> rat" where
  "pow2 e = (if 0 \<le> e then 2 ^ nat e else 1 / 2 ^ nat (- e))"

definition float_exponent :: "rat \<Rightarrow> int" where
  "float_exponent x =
     (if 1 \<le> \<bar>x\<bar> then bit_length \<lfloor>\<bar>x\<bar>\<rfloor> - 1
      else (let e0 = - bit_length \<lfloor>1 / \<bar>x\<bar>\<rfloor>
            in if pow2 (e0 + 1) \<le> \<bar>x\<bar> then e0 + 1 else e0))"

definition round_half_even :: "rat \<Rightarrow> int" where
  "round_half_even x =
     (let f = \<lfloor>x\<rfloor>; d = x - of_int f in
      if d < 1 / 2 then f else if 1 / 2 < d then f + 1 else if even f then f else f + 1)"

definition round_float :: "rat \<Rightarrow> rat" where
  "round_float x =
     (if x = 0 then 0
      else (let q = max (float_exponent x - 52) (- 1074)
            in of_int (round_half_even (x / pow2 q)) * pow2 q))"

definition float_max :: rat where
  "float_max = (2 ^ 53 - 1) * 2 ^ 971"

definition is_float :: "rat \<Rightarrow> bool" where
  "is_float x \<longleftrightarrow> round_float x = x \<and> \<bar>x\<bar> \<le> float_max"

text \<open>
  The value of a float expression: a finite float or one of the two infinities. (No
  operation below produces a NaN from finite operands.)
\<close>

datatype number = Num (the_num: rat) | PlusInf | MinusInf

text \<open>
  \<open>a / b\<close> on two ints is the true division: ZeroDivisionError for a zero divisor,
  OverflowError when the rounded quotient is no finite float, the correctly rounded quotient
  otherwise.
\<close>

definition true_divide :: "int \<Rightarrow> int \<Rightarrow> error + rat" where
  "true_divide a b =
     (if b = 0 then Inl ZeroDivisionError
      else (let r = round_float (of_int a / of_int b) in
            if float_max < \<bar>r\<bar> then Inl OverflowError else Inr r))"

text \<open>
  A number that meets a float in an addition becomes a float first: a float is kept, an int
  is rounded, with OverflowError when it is too large.
\<close>

definition to_float :: "rat \<Rightarrow> error + rat" where
  "to_float x =
     (let r = round_float x in if float_max < \<bar>r\<bar> then Inl OverflowError else Inr r)"

text \<open>The sum of two floats raises nothing: beyond the finite floats it is an infinity.\<close>

definition float_add :: "rat \<Rightarrow> rat \<Rightarrow> number" where
  "float_add a b =
     (let r = round_float (a + b) in
      if float_max < r then PlusInf else if r < - float_max then MinusInf else Num r)"

definition number_add :: "number \<Rightarrow> rat \<Rightarrow> number" where
  "number_add x b = (case x of Num a \<Rightarrow> float_add a b | PlusInf \<Rightarrow> PlusInf | MinusInf \<Rightarrow> MinusInf)"

subsection \<open>Cost functions\<close>

text \<open>
  \<open>path_cost\<close> reads the cost of the parent node and returns a number. Under the first
  three cost functions every operand is an int (the root has cost 0) and so is the result.
  Under StayUp, \<open>state2[beside] / len(self.map)\<close> is a true division, so its result and the
  two sums that follow are floats. \<open>newc = cost + 1\<close> is exact when \<open>cost\<close> is an int and
  rounded when it is a float; either way the float that enters the next sum is
  \<open>round_float (cost + 1)\<close>, which \<open>to_float newc\<close> computes. The quotient is evaluated
  before that sum, so its exceptions come first.
\<close>

definition VacuumPlanning_path_cost ::
  "VacuumPlanning \<Rightarrow> (int \<times> int) node \<Rightarrow> int \<times> int \<Rightarrow> string \<Rightarrow> int \<times> int \<Rightarrow> error + number" where
  "VacuumPlanning_path_cost self curNode state1 act state2 =
     (let cost = path_cost curNode in
      if costFunc (env self) = ''Step'' then Inr (Num (cost + 1))
      else if costFunc (env self) = ''StepTurn'' then
        (let turnc = computeTurnCost (action curNode) (Some act);
             cost1 = cost + 1
         in Inr (Num (cost1 + of_int turnc)))
      else if costFunc (env self) = ''StayLeft'' then Inr (Num (cost + of_int (fst state2)))
      else if costFunc (env self) = ''StayUp'' then
        (let newc = cost + 1 in
         and_then (true_divide (snd state2) (int (length (vp_map self)))) (\<lambda>q.
         and_then (to_float newc) (\<lambda>newc'.
           (let cost' = float_add newc' q in
            if searchType (env self) = ''UCS'' \<and> act = ''DOWN'' then Inr (number_add cost' 5)
            else Inr cost'))))
      else Inr (Num cost))"

subsection \<open>Heuristics\<close>

text \<open>
  \<open>float('inf')\<close> is the start value of both minimum loops, so the value they compute is
  an integer or infinity.
\<close>

datatype dist = Fin int | PosInf

fun dist_less :: "int \<Rightarrow> dist \<Rightarrow> bool" where
  "dist_less d PosInf = True"
| "dist_less d (Fin m) = (d < m)"

definition dirty_rooms :: "VacuumPlanning \<Rightarrow> (int \<times> int) list" where
  "dirty_rooms self = map location (filter (\<lambda>t. kind t = Dirt) (things (env self)))"

fun manhattan_loop :: "int \<times> int \<Rightarrow> (int \<times> int) list \<Rightarrow> dist \<Rightarrow> dist" where
  "manhattan_loop pos [] min_distance = min_distance"
| "manhattan_loop pos (room # rooms) min_distance =
     (let d1 = \<bar>fst pos - fst room\<bar>;
          d2 = \<bar>snd pos - snd room\<bar>;
          td = d1 + d2
      in manhattan_loop pos rooms (if dist_less td min_distance then Fin td else min_distance))"

definition findMinManhattanDist :: "VacuumPlanning \<Rightarrow> int \<times> int \<Rightarrow> dist" where
  "findMinManhattanDist self pos =
     (if dirty_rooms self = [] then Fin 0
      else manhattan_loop pos (dirty_rooms self) PosInf)"

fun euclid_loop :: "int \<times> int \<Rightarrow> (int \<times> int) list \<Rightarrow> dist \<Rightarrow> dist" where
  "euclid_loop pos [] mind = mind"
| "euclid_loop pos (room # rooms) mind =
     (let d1 = (fst pos - fst room) ^ 2;
          d2 = (snd pos - snd room) ^ 2;
          d3 = d1 + d2
      in euclid_loop pos rooms (if dist_less d3 mind then Fin d3 else mind))"

definition findMinEuclidDist :: "VacuumPlanning \<Rightarrow> int \<times> int \<Rightarrow> dist" where
  "findMinEuclidDist self pos =
     (if dirty_rooms self = [] then Fin 0
      else euclid_loop pos (dirty_rooms self) PosInf)"

text \<open>\<open>self.env.args['heuristic']\<close> raises KeyError when the key is missing.\<close>

definition VacuumPlanning_h :: "VacuumPlanning \<Rightarrow> (int \<times> int) node \<Rightarrow> error + dist" where
  "VacuumPlanning_h self node =
     (case args (env self) ''heuristic'' of
        None \<Rightarrow> Inl KeyError
      | Some sel \<Rightarrow>
          if sel = ''Manhattan'' then Inr (findMinManhattanDist self (state node))
          else Inr (findMinEuclidDist self (state node)))"

text \<open>The wording of the specification: the two distances between locations.\<close>

definition manhattan_distance :: "int \<times> int \<Rightarrow> int \<times> int \<Rightarrow> int" where
  "manhattan_distance p q = \<bar>fst p - fst q\<bar> + \<bar>snd p - snd q\<bar>"

definition squared_euclid_distance :: "int \<times> int \<Rightarrow> int \<times> int \<Rightarrow> int" where
  "squared_euclid_distance p q = (fst p - fst q)\<^sup>2 + (snd p - snd q)\<^sup>2"

definition selected_distance :: "string \<Rightarrow> int \<times> int \<Rightarrow> int \<times> int \<Rightarrow> int" where
  "selected_distance sel =
     (if sel = ''Manhattan'' then manhattan_distance else squared_euclid_distance)"

subsection \<open>The vacuum problem as a search problem\<close>

text \<open>
  The search functions take a problem object and call its four methods. \<open>problem_of\<close> is
  the vacuum problem as the graph searches see it on the runs in which \<open>actions\<close> and
  \<open>path_cost\<close> return, the latter a finite number: there its \<open>actions\<close> and
  \<open>path_cost_fn\<close> are the values returned. A run in which one of them raises is not a run
  of \<open>problem_of\<close>; the reflex rule below keeps the exceptions. The direction that
  \<open>result\<close> writes is read by no function of search.py, so the searches keep the state it
  returns only.
\<close>

definition problem_of :: "VacuumPlanning \<Rightarrow> (int \<times> int) problem" where
  "problem_of self =
     \<lparr> initial = vp_initial self,
       actions = (\<lambda>st. projr (VacuumPlanning_actions self st)),
       result = (\<lambda>st act. fst (VacuumPlanning_result self st act)),
       goal_test = VacuumPlanning_goal_test self,
       path_cost_fn = (\<lambda>curNode state1 act state2.
          the_num (projr (VacuumPlanning_path_cost self curNode state1 act state2))) \<rparr>"

text \<open>The node reached from a node by repeated \<open>child_node\<close> along a list of actions.\<close>

definition follow :: "'s problem \<Rightarrow> 's node \<Rightarrow> string list \<Rightarrow> 's node" where
  "follow problem n acts = foldl (child_node problem) n acts"

definition stayup_env :: "string \<Rightarrow> env" where
  "stayup_env st =
     \<lparr> agent = \<lparr> kind = Other, location = (0, 1), direction = ''UP'' \<rparr>,
       things = [\<lparr> kind = Dirt, location = (3, 3) \<rparr>],
       things_near = (\<lambda>loc. []),
       some_things_at = (\<lambda>loc k. k = Dirt \<and> loc = (3, 3)),
       costFunc = ''StayUp'',
       searchType = st,
       args = Map.empty \<rparr>"

definition h_env :: "string \<Rightarrow> env" where
  "h_env sel = (stayup_env ''A*'')\<lparr>
      things := [\<lparr> kind = Dirt, location = (3, 3) \<rparr>, \<lparr> kind = Wall, location = (0, 2) \<rparr>,
                 \<lparr> kind = Dirt, location = (1, -1) \<rparr>],
      args := [''heuristic'' \<mapsto> sel] \<rparr>"

section \<open>Search algorithms\<close>

subsection \<open>Membership of a node in a frontier\<close>


subsection \<open>Breadth-first and depth-first graph search\<close>







subsection \<open>The priority queue\<close>

text \<open>
  Modelled from the spec: the class \<open>PriorityQueue\<close> of the module \<open>utils\<close>, which is not
  part of the sources. The specification describes it as a priority queue ordered by
  ascending \<open>f\<close>, with a membership test by state, the lookup of the \<open>f\<close> value stored
  for a state, and the removal of the entry of a state; ties are broken by the total order
  on states (\<open>Node.__lt__\<close> compares states). The queue is the list of its entries, each
  an \<open>f\<close> value with its node, in the order of insertion.
\<close>

type_synonym 's pq = "(rat \<times> 's node) list"

definition pq_append :: "('s node \<Rightarrow> rat) \<Rightarrow> 's pq \<Rightarrow> 's node \<Rightarrow> 's pq" where
  "pq_append f front item = front @ [(f item, item)]"

definition pq_contains :: "'s node \<Rightarrow> 's pq \<Rightarrow> bool" where
  "pq_contains key front = (\<exists>e \<in> set front. state (snd e) = state key)"

text \<open>\<open>front[key]\<close>: the value of the first entry with the state of \<open>key\<close>; KeyError is \<open>None\<close>.\<close>

fun pq_getitem :: "'s pq \<Rightarrow> 's node \<Rightarrow> rat option" where
  "pq_getitem [] key = None"
| "pq_getitem (e # es) key = (if state (snd e) = state key then Some (fst e) else pq_getitem es key)"

text \<open>\<open>del front[key]\<close>: removes the first entry with the state of \<open>key\<close>.\<close>

fun pq_delitem :: "'s pq \<Rightarrow> 's node \<Rightarrow> 's pq" where
  "pq_delitem [] key = []"
| "pq_delitem (e # es) key = (if state (snd e) = state key then es else e # pq_delitem es key)"

definition entry_less :: "rat \<times> ('s::linorder) node \<Rightarrow> rat \<times> 's node \<Rightarrow> bool" where
  "entry_less a b = (fst a < fst b \<or> (fst a = fst b \<and> state (snd a) < state (snd b)))"

fun pq_min :: "rat \<times> ('s::linorder) node \<Rightarrow> 's pq \<Rightarrow> rat \<times> 's node" where
  "pq_min m [] = m"
| "pq_min m (e # es) = pq_min (if entry_less e m then e else m) es"

text \<open>\<open>front.pop()\<close> on a queue that is not empty: the least entry and the remaining queue.\<close>

definition pq_pop :: "rat \<times> ('s::linorder) node \<Rightarrow> 's pq \<Rightarrow> 's node \<times> 's pq" where
  "pq_pop e es = (let m = pq_min e es in (snd m, remove1 m (e # es)))"

subsection \<open>Best-first graph search\<close>

text \<open>
  \<open>f = memoize(f or problem.h, 'f')\<close> stores the value of \<open>f\<close> in an attribute of the
  node at the first call and reads it afterwards; nodes do not change after their creation,
  so the memoized function is \<open>f\<close> itself. In the second test of the loop, \<open>front[c]\<close> is
  evaluated only when \<open>c in front\<close> holds.
\<close>

fun bfgs_for :: "('s node \<Rightarrow> rat) \<Rightarrow> 's node list \<Rightarrow> 's pq \<Rightarrow> 's set \<Rightarrow> 's pq" where
  "bfgs_for f [] front explore = front"
| "bfgs_for f (c # cs) front explore =
     (let c_state = state c in
      if \<not> (c_state \<in> explore \<or> pq_contains c front) then
        bfgs_for f cs (pq_append f front c) explore
      else if pq_contains c front \<and> \<not> (f c \<ge> the (pq_getitem front c)) then
        bfgs_for f cs (pq_append f (pq_delitem front c) c) explore
      else bfgs_for f cs front explore)"

fun bfgs_while ::
  "nat \<Rightarrow> ('s::linorder) problem \<Rightarrow> ('s node \<Rightarrow> rat) \<Rightarrow> 's pq \<Rightarrow> 's set
     \<Rightarrow> ('s node option \<times> 's set) option" where
  "bfgs_while fuel problem f [] explore = Some (None, explore)"
| "bfgs_while 0 problem f (e # es) explore = None"
| "bfgs_while (Suc fuel) problem f (e # es) explore =
     (let node = fst (pq_pop e es);
          front = snd (pq_pop e es) in
      if goal_test problem (state node) then Some (Some node, explore)
      else (let explore' = insert (state node) explore;
                expanded_nodes = expand problem node
            in bfgs_while fuel problem f (bfgs_for f expanded_nodes front explore') explore'))"

definition best_first_graph_search ::
  "nat \<Rightarrow> ('s::linorder) problem \<Rightarrow> ('s node \<Rightarrow> rat) \<Rightarrow> ('s node option \<times> 's set) option" where
  "best_first_graph_search fuel problem f =
     (let node = Node_init (initial problem) None None 0;
          front = pq_append f [] node
      in bfgs_while fuel problem f front {})"

definition uniform_cost_search ::
  "nat \<Rightarrow> ('s::linorder) problem \<Rightarrow> ('s node option \<times> 's set) option" where
  "uniform_cost_search fuel problem = best_first_graph_search fuel problem path_cost"

subsection \<open>The reflex rule\<close>

text \<open>
  \<open>reflexAgentSearch\<close> reads \<open>problem.state\<close>, an attribute that only the vacuum problem
  has, so it is modelled on that class, and \<open>Node.child_node\<close> and \<open>Node.expand\<close> are taken
  here with the methods of the vacuum problem and the exceptions they raise. The list
  comprehension of \<open>expand\<close> builds the children from left to right; the first exception
  ends it.
\<close>

definition VacuumPlanning_child_node ::
  "VacuumPlanning \<Rightarrow> (int \<times> int) node \<Rightarrow> string \<Rightarrow> error + (int \<times> int) node" where
  "VacuumPlanning_child_node problem self act =
     (let next_state = fst (VacuumPlanning_result problem (state self) act) in
      and_then (VacuumPlanning_path_cost problem self (state self) act next_state) (\<lambda>pathCost.
        case pathCost of
          Num c \<Rightarrow> Inr (Node_init next_state (Some self) (Some act) c)
        | PlusInf \<Rightarrow> Inl InfiniteCost
        | MinusInf \<Rightarrow> Inl InfiniteCost))"

fun child_nodes ::
  "VacuumPlanning \<Rightarrow> (int \<times> int) node \<Rightarrow> string list \<Rightarrow> error + (int \<times> int) node list" where
  "child_nodes problem self [] = Inr []"
| "child_nodes problem self (act # acts) =
     and_then (VacuumPlanning_child_node problem self act) (\<lambda>c.
     and_then (child_nodes problem self acts) (\<lambda>cs. Inr (c # cs)))"

definition VacuumPlanning_expand ::
  "VacuumPlanning \<Rightarrow> (int \<times> int) node \<Rightarrow> error + (int \<times> int) node list" where
  "VacuumPlanning_expand problem self =
     and_then (VacuumPlanning_actions problem (state self)) (\<lambda>acts.
       child_nodes problem self (sort_key left_key acts))"

text \<open>
  \<open>random.choice\<close> belongs to Python's library. The generator is an explicit value: the
  sequence of its future draws and the number of draws taken so far. \<open>random.choice(seq)\<close>
  raises IndexError on an empty sequence; otherwise it takes one draw, an index that is
  uniformly distributed over the \<open>len(seq)\<close> indices of the sequence, and returns the
  element at that index.

  \<open>with_draw g d\<close> is the generator \<open>g\<close> with \<open>d\<close> as its next draw, and \<open>probability n event\<close>
  is the probability of an event of an index drawn uniformly below \<open>n\<close>: the share of the
  \<open>n\<close> equally likely indices at which the event holds.
\<close>

record rng =
  draws :: "nat \<Rightarrow> nat"
  used :: nat

definition random_choice :: "rng \<Rightarrow> 'a list \<Rightarrow> (error + 'a) \<times> rng" where
  "random_choice g xs =
     (if xs = [] then (Inl IndexError, g)
      else (Inr (xs ! (draws g (used g) mod length xs)), g\<lparr>used := used g + 1\<rparr>))"

definition with_draw :: "rng \<Rightarrow> nat \<Rightarrow> rng" where
  "with_draw g d = g\<lparr>draws := (draws g)(used g := d)\<rparr>"

definition probability :: "nat \<Rightarrow> (nat \<Rightarrow> bool) \<Rightarrow> rat" where
  "probability n event = of_nat (length (filter event [0..<n])) / of_nat n"

fun reflex_for :: "VacuumPlanning \<Rightarrow> (int \<times> int) node list \<Rightarrow> (int \<times> int) node option" where
  "reflex_for problem [] = None"
| "reflex_for problem (neigh # neighbors) =
     (if VacuumPlanning_goal_test problem (state neigh) then Some neigh
      else reflex_for problem neighbors)"

text \<open>
  \<open>reflexAgentSearch\<close> returns a pair of a node and \<open>None\<close> in the place of the explored
  set; the second component is modelled as an optional set.
\<close>

definition reflexAgentSearch ::
  "VacuumPlanning \<Rightarrow> rng \<Rightarrow> (error + ((int \<times> int) node \<times> (int \<times> int) set option)) \<times> rng" where
  "reflexAgentSearch problem g =
     (let node = Node_init (vp_state problem) None None 0 in
      case VacuumPlanning_expand problem node of
        Inl e \<Rightarrow> (Inl e, g)
      | Inr neighbors \<Rightarrow>
          (case reflex_for problem neighbors of
             Some neigh \<Rightarrow> (Inr (neigh, None), g)
           | None \<Rightarrow>
               (case random_choice g neighbors of
                  (Inl e, g') \<Rightarrow> (Inl e, g')
                | (Inr randPic, g') \<Rightarrow> (Inr (randPic, None), g'))))"

subsection \<open>Grid environments\<close>

text \<open>
  An environment for a list of things on the integer grid: the things near a location are
  those at the location or at one of its four neighbours, in the order of the list.
\<close>

definition near :: "int \<times> int \<Rightarrow> int \<times> int \<Rightarrow> bool" where
  "near a b = ((fst a - fst b)\<^sup>2 + (snd a - snd b)\<^sup>2 \<le> 1)"

definition wall :: "int \<times> int \<Rightarrow> thing" where
  "wall loc = \<lparr> kind = Wall, location = loc \<rparr>"

definition dirt :: "int \<times> int \<Rightarrow> thing" where
  "dirt loc = \<lparr> kind = Dirt, location = loc \<rparr>"

definition grid_env :: "int \<times> int \<Rightarrow> thing list \<Rightarrow> string \<Rightarrow> string \<Rightarrow> env" where
  "grid_env start ts cf st =
     \<lparr> agent = \<lparr> kind = Other, location = start, direction = ''UP'' \<rparr>,
       things = ts,
       things_near = (\<lambda>loc. filter (\<lambda>t. near (location t) loc) ts),
       some_things_at = (\<lambda>loc k. \<exists>t \<in> set ts. location t = loc \<and> kind t = k),
       costFunc = cf,
       searchType = st,
       args = [''heuristic'' \<mapsto> ''Manhattan''] \<rparr>"

text \<open>
  Five free cells (0,0), (1,0), (0,1), (1,1), (1,2) enclosed by walls, dirt at (1,2), the
  agent at (0,0), the step-and-turn cost function.
\<close>

definition turn_things :: "thing list" where
  "turn_things =
     [wall (-1, 0), wall (0, -1), wall (2, 0), wall (1, -1), wall (-1, 1), wall (0, 2),
      wall (2, 1), wall (2, 2), wall (1, 3), dirt (1, 2)]"

definition turn_vacuum :: VacuumPlanning where
  "turn_vacuum = VacuumPlanning_init (grid_env (0, 0) turn_things ''StepTurn'' ''UCS'') ''UCS''"

definition turn_problem :: "(int \<times> int) problem" where
  "turn_problem = problem_of turn_vacuum"

text \<open>An open grid with dirt to the left of and above the agent at (0,0).\<close>

definition open_vacuum :: VacuumPlanning where
  "open_vacuum =
     VacuumPlanning_init (grid_env (0, 0) [dirt (-1, 0), dirt (0, 1)] ''Step'' ''BFS'') ''BFS''"




text \<open>States reachable from the initial state by the actions of the problem.\<close>

inductive_set reachable :: "'s problem \<Rightarrow> 's set" for problem :: "'s problem" where
  init: "initial problem \<in> reachable problem"
| step: "s \<in> reachable problem \<Longrightarrow> a \<in> set (actions problem s)
           \<Longrightarrow> result problem s a \<in> reachable problem"

text \<open>The expansion that the reflex rule looks at.\<close>

abbreviation reflex_neighbors :: "VacuumPlanning \<Rightarrow> error + (int \<times> int) node list" where
  "reflex_neighbors self \<equiv> VacuumPlanning_expand self (Node_init (vp_state self) None None 0)"

text \<open>
  A vacuum problem with the StayUp cost function and nothing on the map, and one whose
  environment reports the wall above the agent twice.
\<close>

definition bare_vacuum :: VacuumPlanning where
  "bare_vacuum = VacuumPlanning_init ((stayup_env ''UCS'')\<lparr>things := []\<rparr>) ''UCS''"

definition doubled_vacuum :: VacuumPlanning where
  "doubled_vacuum =
     VacuumPlanning_init
       ((stayup_env ''UCS'')\<lparr>things_near := (\<lambda>loc. [wall (0, 2), wall (0, 2)])\<rparr>) ''UCS''"

text \<open>A generator for the examples: every draw is 3.\<close>

definition threes :: rng where
  "threes = \<lparr> draws = (\<lambda>k. 3), used = 0 \<rparr>"

text \<open>
  Two nodes of the walled grid with the state (1,1): one reached by UP then RIGHT, one by
  RIGHT then UP; both have path cost 5. And two nodes with the state (1,0).
\<close>

definition via_up_right :: "(int \<times> int) node" where
  "via_up_right = follow turn_problem (Node_init (0, 0) None None 0) [''UP'', ''RIGHT'']"

definition via_right_up :: "(int \<times> int) node" where
  "via_right_up = follow turn_problem (Node_init (0, 0) None None 0) [''RIGHT'', ''UP'']"

definition via_right :: "(int \<times> int) node" where
  "via_right = follow turn_problem (Node_init (0, 0) None None 0) [''RIGHT'']"

definition via_detour :: "(int \<times> int) node" where
  "via_detour =
     follow turn_problem (Node_init (0, 0) None None 0) [''UP'', ''RIGHT'', ''DOWN'']"

subsection \<open>Paths and their costs\<close>

text \<open>
  \<open>walk problem w s c\<close>: some sequence of legal actions leads from the initial state to
  \<open>s\<close>, and \<open>c\<close> is the sum of the step costs \<open>w state action\<close> along it.
\<close>

inductive walk :: "'s problem \<Rightarrow> ('s \<Rightarrow> string \<Rightarrow> rat) \<Rightarrow> 's \<Rightarrow> rat \<Rightarrow> bool"
  for problem :: "'s problem" and w :: "'s \<Rightarrow> string \<Rightarrow> rat" where
  start: "walk problem w (initial problem) 0"
| move: "walk problem w s c \<Longrightarrow> a \<in> set (actions problem s)
           \<Longrightarrow> walk problem w (result problem s a) (c + w s a)"

text \<open>The frontier holds an entry for the state \<open>s\<close> with a value of at most \<open>b\<close>.\<close>

definition covered :: "'s pq \<Rightarrow> 's \<Rightarrow> rat \<Rightarrow> bool" where
  "covered front s b = (\<exists>e \<in> set front. state (snd e) = s \<and> fst e \<le> b)"

text \<open>
  The invariant of the loop of uniform-cost search: explored states are reachable and are
  not goals; the frontier has one entry per state, each for a node whose cost is the cost of
  a path to its state, and none for an explored state; the initial state is explored or in
  the frontier; and every successor of an explored state is explored or in the frontier with
  a value no larger than the cost of any path through that explored state.
\<close>

definition ucs_inv :: "'s problem \<Rightarrow> ('s \<Rightarrow> string \<Rightarrow> rat) \<Rightarrow> 's pq \<Rightarrow> 's set \<Rightarrow> bool" where
  "ucs_inv problem w front explore =
     (explore \<subseteq> reachable problem
      \<and> (\<forall>u \<in> explore. \<not> goal_test problem u)
      \<and> distinct (map (\<lambda>e. state (snd e)) front)
      \<and> (\<forall>e \<in> set front. fst e = path_cost (snd e)
            \<and> walk problem w (state (snd e)) (path_cost (snd e))
            \<and> state (snd e) \<notin> explore)
      \<and> (initial problem \<in> explore \<or> covered front (initial problem) 0)
      \<and> (\<forall>u \<in> explore. \<forall>c. walk problem w u c \<longrightarrow>
            (\<forall>a \<in> set (actions problem u).
               result problem u a \<in> explore
               \<or> covered front (result problem u a) (c + w u a))))"

text \<open>
  The walled grid of five cells with the step cost function, and a single cell enclosed by
  walls with dirt on it.
\<close>

definition step_problem :: "(int \<times> int) problem" where
  "step_problem =
     problem_of (VacuumPlanning_init (grid_env (0, 0) turn_things ''Step'' ''UCS'') ''UCS'')"

definition closet_problem :: "(int \<times> int) problem" where
  "closet_problem =
     problem_of (VacuumPlanning_init
       (grid_env (0, 0) [wall (0, 1), wall (0, -1), wall (1, 0), wall (-1, 0), dirt (0, 0)]
          ''Step'' ''UCS'') ''UCS'')"

text \<open>One pass through the body of the \<open>for c in expanded_nodes\<close> loop.\<close>

definition frontier_step :: "('s node \<Rightarrow> rat) \<Rightarrow> 's node \<Rightarrow> 's pq \<Rightarrow> 's set \<Rightarrow> 's pq" where
  "frontier_step f c front explore = bfgs_for f [c] front explore"

section \<open>Properties\<close>

subsection \<open>Python numbers\<close>

text \<open>The largest finite float, \<open>sys.float_info.max\<close>, written out.\<close>

lemma float_max_value [code]:
  "float_max = 179769313486231570814527423731704356798070567525844996598917476803157260780028538760589558632766878171540458953514382464234321326889464182768467546703537516986049910576551282076245490090389328944075868508455133942304583236903222948165808559332123348274797826204144723168738177180919299881250404026184124858368"
  by (simp add: float_max_def)

subsection \<open>Turn cost\<close>

lemma in_directions:
  "a \<in> set directions \<longleftrightarrow> a = ''UP'' \<or> a = ''RIGHT'' \<or> a = ''DOWN'' \<or> a = ''LEFT''"
  by (auto simp: directions_def)

lemma index_directions:
  "index directions ''UP'' = 0" "index directions ''RIGHT'' = 1"
  "index directions ''DOWN'' = 2" "index directions ''LEFT'' = 3"
  by (simp_all add: directions_def)

lemma computeTurnCost_dirs:
  assumes "a \<in> set directions" "b \<in> set directions"
  shows "computeTurnCost (Some a) (Some b)
           = 3 * rotation_distance (index directions a) (index directions b)"
  using assms unfolding in_directions
  by (elim disjE; simp add: computeTurnCost_def rotation_distance_def directions_def)

lemma computeTurnCost_outside:
  "action1 \<notin> Some ` set directions \<or> act \<notin> Some ` set directions
     \<Longrightarrow> computeTurnCost action1 act = 0"
  by (simp add: computeTurnCost_def)

lemma rotation_distance_range:
  assumes "a \<in> set directions" "b \<in> set directions"
  shows "rotation_distance (index directions a) (index directions b) \<in> {0, 1, 2}"
  using assms unfolding in_directions
  by (elim disjE; simp only: index_directions rotation_distance_def; simp)

lemma rotation_distance_sym: "rotation_distance i j = rotation_distance j i"
  by (simp add: rotation_distance_def min.commute)

lemma computeTurnCost_cases:
  "(action1 \<notin> Some ` set directions \<or> act \<notin> Some ` set directions)
   \<or> (\<exists>a b. action1 = Some a \<and> act = Some b \<and> a \<in> set directions \<and> b \<in> set directions)"
  by auto

text \<open>
  Claim C9. \<open>computeTurnCost\<close> is 0 as soon as one argument is not one of the four
  directions (so also for the \<open>None\<close> action of a root); on two directions it is three
  times their rotation distance on the cycle UP, RIGHT, DOWN, LEFT; its value is always
  0, 3 or 6; and it is symmetric in its arguments.
\<close>

theorem computeTurnCost_spec:
  "(action1 \<notin> Some ` set directions \<or> act \<notin> Some ` set directions
      \<longrightarrow> computeTurnCost action1 act = 0)
   \<and> computeTurnCost None act = 0
   \<and> (\<forall>a b. a \<in> set directions \<and> b \<in> set directions \<longrightarrow>
         computeTurnCost (Some a) (Some b)
           = 3 * rotation_distance (index directions a) (index directions b))
   \<and> computeTurnCost action1 act \<in> {0, 3, 6}
   \<and> computeTurnCost action1 act = computeTurnCost act action1"
proof (intro conjI allI impI)
  assume "action1 \<notin> Some ` set directions \<or> act \<notin> Some ` set directions"
  then show "computeTurnCost action1 act = 0" by (rule computeTurnCost_outside)
next
  show "computeTurnCost None act = 0" by (simp add: computeTurnCost_def)
next
  fix a b assume "a \<in> set directions \<and> b \<in> set directions"
  then show "computeTurnCost (Some a) (Some b)
           = 3 * rotation_distance (index directions a) (index directions b)"
    by (simp add: computeTurnCost_dirs)
next
  show "computeTurnCost action1 act \<in> {0, 3, 6}"
    using computeTurnCost_cases [of action1 act]
  proof
    assume "action1 \<notin> Some ` set directions \<or> act \<notin> Some ` set directions"
    then show ?thesis by (simp add: computeTurnCost_outside)
  next
    assume "\<exists>a b. action1 = Some a \<and> act = Some b \<and> a \<in> set directions \<and> b \<in> set directions"
    then obtain a b where ab: "action1 = Some a" "act = Some b"
      "a \<in> set directions" "b \<in> set directions" by blast
    from rotation_distance_range [OF ab(3,4)] show ?thesis
      by (auto simp: ab computeTurnCost_dirs)
  qed
next
  show "computeTurnCost action1 act = computeTurnCost act action1"
    using computeTurnCost_cases [of action1 act]
  proof
    assume o: "action1 \<notin> Some ` set directions \<or> act \<notin> Some ` set directions"
    then have "act \<notin> Some ` set directions \<or> action1 \<notin> Some ` set directions" by blast
    with o show ?thesis by (simp add: computeTurnCost_outside)
  next
    assume "\<exists>a b. action1 = Some a \<and> act = Some b \<and> a \<in> set directions \<and> b \<in> set directions"
    then obtain a b where ab: "action1 = Some a" "act = Some b"
      "a \<in> set directions" "b \<in> set directions" by blast
    then show ?thesis
      by (simp add: computeTurnCost_dirs rotation_distance_sym [of "index directions a"])
  qed
qed

theorem computeTurnCost_spec_witness:
  "computeTurnCost (Some ''DOWN'') (Some ''sideways'') = 0
   \<and> computeTurnCost None (Some ''UP'') = 0
   \<and> computeTurnCost (Some ''UP'') (Some ''LEFT'') = 3
   \<and> rotation_distance (index directions ''UP'') (index directions ''LEFT'') = 1
   \<and> computeTurnCost (Some ''UP'') (Some ''DOWN'') = 6
   \<and> computeTurnCost (Some ''LEFT'') (Some ''UP'') = computeTurnCost (Some ''UP'') (Some ''LEFT'')"
proof -
  have o: "Some ''sideways'' \<notin> Some ` set directions" by (simp add: directions_def)
  have d: "''UP'' \<in> set directions" "''LEFT'' \<in> set directions" "''DOWN'' \<in> set directions"
    by (simp_all add: directions_def)
  have r: "rotation_distance (index directions ''UP'') (index directions ''LEFT'') = 1"
    "rotation_distance (index directions ''UP'') (index directions ''DOWN'') = 2"
    by (simp_all add: index_directions rotation_distance_def)
  note s1 = computeTurnCost_spec [of "Some ''DOWN''" "Some ''sideways''"]
  note s2 = computeTurnCost_spec [of "Some ''UP''" "Some ''LEFT''"]
  from s1 o have 1: "computeTurnCost (Some ''DOWN'') (Some ''sideways'') = 0" by blast
  from s2 have 2: "computeTurnCost None (Some ''LEFT'') = 0" by blast
  from s1 have 2: "computeTurnCost None (Some ''sideways'') = 0" by blast
  from computeTurnCost_spec [of None "Some ''UP''"]
  have 3: "computeTurnCost None (Some ''UP'') = 0" by blast
  from s2 d have "computeTurnCost (Some ''UP'') (Some ''LEFT'')
      = 3 * rotation_distance (index directions ''UP'') (index directions ''LEFT'')" by blast
  with r have 4: "computeTurnCost (Some ''UP'') (Some ''LEFT'') = 3" by simp
  from s2 d have "computeTurnCost (Some ''UP'') (Some ''DOWN'')
      = 3 * rotation_distance (index directions ''UP'') (index directions ''DOWN'')" by blast
  with r have 5: "computeTurnCost (Some ''UP'') (Some ''DOWN'') = 6" by simp
  from s2 have 6: "computeTurnCost (Some ''UP'') (Some ''LEFT'')
      = computeTurnCost (Some ''LEFT'') (Some ''UP'')" by blast
  from 1 3 4 5 6 r show ?thesis by simp
qed
subsection \<open>result\<close>

text \<open>
  Claim C3 (as amended). \<open>result\<close> returns a state that depends on the state and the action
  only, so a second call with the same arguments returns the same state; of the rest of the
  program state it changes exactly one thing, the direction of the agent, which it sets to
  the action.
\<close>

theorem result_frame:
  "fst (VacuumPlanning_result self st act) = fst (VacuumPlanning_result other st act)
   \<and> fst (VacuumPlanning_result (snd (VacuumPlanning_result self st act)) st act)
       = fst (VacuumPlanning_result self st act)
   \<and> snd (VacuumPlanning_result self st act)
       = self\<lparr>env := (env self)\<lparr>agent := (agent (env self))\<lparr>direction := act\<rparr>\<rparr>\<rparr>
   \<and> direction (vp_agent (snd (VacuumPlanning_result self st act))) = act
   \<and> location (vp_agent (snd (VacuumPlanning_result self st act))) = location (vp_agent self)
   \<and> vp_map (snd (VacuumPlanning_result self st act)) = vp_map self
   \<and> vp_state (snd (VacuumPlanning_result self st act)) = vp_state self
   \<and> vp_initial (snd (VacuumPlanning_result self st act)) = vp_initial self"
  by (simp add: VacuumPlanning_result_def vp_agent_def vp_map_def Let_def)

text \<open>
  Claim C3 as stated fails: after \<open>__init__\<close> the agent faces UP, and one call of \<open>result\<close>
  with LEFT leaves it facing LEFT.
\<close>

theorem result_not_pure:
  "direction (agent (env (VacuumPlanning_init (stayup_env ''UCS'') ''UCS''))) = ''UP''
   \<and> snd (VacuumPlanning_result (VacuumPlanning_init (stayup_env ''UCS'') ''UCS'') (0, 1) ''LEFT'')
       \<noteq> VacuumPlanning_init (stayup_env ''UCS'') ''UCS''
   \<and> direction (agent (env (snd (VacuumPlanning_result
        (VacuumPlanning_init (stayup_env ''UCS'') ''UCS'') (0, 1) ''LEFT'')))) = ''LEFT''"
proof -
  let ?v = "VacuumPlanning_init (stayup_env ''UCS'') ''UCS''"
  have 1: "direction (agent (env ?v)) = ''UP''"
    by (simp add: VacuumPlanning_init_def)
  have 2: "direction (agent (env (snd (VacuumPlanning_result ?v (0, 1) ''LEFT'')))) = ''LEFT''"
    by (simp add: VacuumPlanning_result_def Let_def)
  have "snd (VacuumPlanning_result ?v (0, 1) ''LEFT'') \<noteq> ?v"
  proof
    assume "snd (VacuumPlanning_result ?v (0, 1) ''LEFT'') = ?v"
    with 2 have "direction (agent (env ?v)) = ''LEFT''" by simp
    with 1 show False by simp
  qed
  with 1 2 show ?thesis by blast
qed

subsection \<open>Heuristic\<close>
lemma Min_insert_min:
  fixes a m :: int
  assumes "finite S"
  shows "Min (insert (min a m) S) = Min (insert m (insert a S))"
proof (cases "S = {}")
  case True
  then show ?thesis by (simp add: min.commute)
next
  case False
  with assms show ?thesis by (simp add: min.assoc min.commute min.left_commute)
qed

lemma manhattan_loop_step:
  "manhattan_loop pos (room # rooms) (Fin m)
     = manhattan_loop pos rooms (Fin (min (manhattan_distance pos room) m))"
  by (simp add: manhattan_distance_def Let_def min_def)

lemma manhattan_loop_Fin:
  "manhattan_loop pos rooms (Fin m)
     = Fin (Min (insert m (manhattan_distance pos ` set rooms)))"
proof (induction rooms arbitrary: m)
  case Nil
  show ?case by simp
next
  case (Cons room rooms)
  have "manhattan_loop pos (room # rooms) (Fin m)
      = Fin (Min (insert (min (manhattan_distance pos room) m) (manhattan_distance pos ` set rooms)))"
    unfolding manhattan_loop_step by (rule Cons.IH)
  also have "\<dots> = Fin (Min (insert m (manhattan_distance pos ` set (room # rooms))))"
    by (simp add: Min_insert_min)
  finally show ?case .
qed

lemma manhattan_loop_PosInf:
  "rooms \<noteq> [] \<Longrightarrow> manhattan_loop pos rooms PosInf = Fin (Min (manhattan_distance pos ` set rooms))"
proof (cases rooms)
  case Nil
  then show "rooms \<noteq> [] \<Longrightarrow> ?thesis" by simp
next
  case (Cons room rest)
  have "manhattan_loop pos (room # rest) PosInf = manhattan_loop pos rest (Fin (manhattan_distance pos room))"
    by (simp add: manhattan_distance_def Let_def)
  then show ?thesis using Cons by (simp add: manhattan_loop_Fin)
qed

lemma euclid_loop_step:
  "euclid_loop pos (room # rooms) (Fin m)
     = euclid_loop pos rooms (Fin (min (squared_euclid_distance pos room) m))"
  by (simp add: squared_euclid_distance_def Let_def min_def)

lemma euclid_loop_Fin:
  "euclid_loop pos rooms (Fin m)
     = Fin (Min (insert m (squared_euclid_distance pos ` set rooms)))"
proof (induction rooms arbitrary: m)
  case Nil
  show ?case by simp
next
  case (Cons room rooms)
  have "euclid_loop pos (room # rooms) (Fin m)
      = Fin (Min (insert (min (squared_euclid_distance pos room) m) (squared_euclid_distance pos ` set rooms)))"
    unfolding euclid_loop_step by (rule Cons.IH)
  also have "\<dots> = Fin (Min (insert m (squared_euclid_distance pos ` set (room # rooms))))"
    by (simp add: Min_insert_min)
  finally show ?case .
qed

lemma euclid_loop_PosInf:
  "rooms \<noteq> [] \<Longrightarrow> euclid_loop pos rooms PosInf = Fin (Min (squared_euclid_distance pos ` set rooms))"
proof (cases rooms)
  case Nil
  then show "rooms \<noteq> [] \<Longrightarrow> ?thesis" by simp
next
  case (Cons room rest)
  have "euclid_loop pos (room # rest) PosInf = euclid_loop pos rest (Fin (squared_euclid_distance pos room))"
    by (simp add: squared_euclid_distance_def Let_def)
  then show ?thesis using Cons by (simp add: euclid_loop_Fin)
qed

text \<open>
  Claim C6. With a configured selector, \<open>h\<close> returns 0 when the environment holds no dirt
  and otherwise the least distance from the state of the node to a dirty room, the Manhattan
  distance for the selector \<open>'Manhattan'\<close> and the squared Euclidean distance for any
  other selector.
\<close>

theorem h_nearest_dirty_room:
  assumes "args (env self) ''heuristic'' = Some sel"
  shows "VacuumPlanning_h self node =
           Inr (Fin (if dirty_rooms self = [] then 0
                     else Min (selected_distance sel (state node) ` set (dirty_rooms self))))"
  using assms
  by (simp add: VacuumPlanning_h_def findMinManhattanDist_def findMinEuclidDist_def
        selected_distance_def manhattan_loop_PosInf euclid_loop_PosInf)

theorem h_nearest_dirty_room_witness:
  "args (env (VacuumPlanning_init (h_env ''Euclid'') ''A*'')) ''heuristic'' = Some ''Euclid''
   \<and> VacuumPlanning_h (VacuumPlanning_init (h_env ''Euclid'') ''A*'') (Node_init (0, 1) None None 0)
       = Inr (Fin 5)"
proof -
  let ?v = "VacuumPlanning_init (h_env ''Euclid'') ''A*''"
  have a: "args (env ?v) ''heuristic'' = Some ''Euclid''"
    by (simp add: VacuumPlanning_init_def h_env_def)
  have d: "dirty_rooms ?v = [(3, 3), (1, -1)]"
    by (simp add: dirty_rooms_def VacuumPlanning_init_def h_env_def stayup_env_def)
  have s: "state (Node_init (0, 1) None None 0) = ((0, 1) :: int \<times> int)"
    by (simp add: Node_init_def)
  from h_nearest_dirty_room [OF a, of "Node_init (0, 1) None None 0"] a
  show ?thesis
    by (simp add: d s selected_distance_def squared_euclid_distance_def)
qed

subsection \<open>The StayUp cost function\<close>

lemma true_divide_exact:
  "b \<noteq> 0 \<Longrightarrow> is_float (of_int a / of_int b) \<Longrightarrow> true_divide a b = Inr (of_int a / of_int b)"
  by (simp add: true_divide_def is_float_def Let_def)

lemma to_float_exact: "is_float x \<Longrightarrow> to_float x = Inr x"
  by (simp add: to_float_def is_float_def Let_def)

lemma float_add_exact: "is_float (a + b) \<Longrightarrow> float_add a b = Num (a + b)"
  by (auto simp: float_add_def is_float_def Let_def)

lemma StayUp_steps:
  assumes "costFunc (env self) = ''StayUp''"
    and "true_divide (snd state2) (int (length (vp_map self))) = Inr q"
    and "to_float (path_cost curNode + 1) = Inr c"
  shows "VacuumPlanning_path_cost self curNode state1 act state2
           = Inr (if searchType (env self) = ''UCS'' \<and> act = ''DOWN''
                  then number_add (float_add c q) 5 else float_add c q)"
  using assms by (simp add: VacuumPlanning_path_cost_def Let_def and_then_def)

text \<open>
  Claim C10. Under the StayUp cost function a step adds 1 plus the y-coordinate of the new
  state divided by the length of the map, and 5 more for a DOWN action exactly when the
  search type of the environment is \<open>'UCS'\<close>. The quotient and the sums are floats: the
  cost is the float sum of the float of \<open>cost + 1\<close> and the float quotient, and it is the
  exact sum wherever the operands and the sums are floats themselves; an empty map gives
  ZeroDivisionError. So there is an action sequence whose accumulated cost under UCS differs
  from its cost under A*, everything else being equal.
\<close>

theorem StayUp_cost:
  "(costFunc (env self) = ''StayUp''
      \<and> true_divide (snd state2) (int (length (vp_map self))) = Inr q
      \<and> to_float (path_cost curNode + 1) = Inr c \<longrightarrow>
      VacuumPlanning_path_cost self curNode state1 act state2
        = Inr (if searchType (env self) = ''UCS'' \<and> act = ''DOWN''
               then number_add (float_add c q) 5 else float_add c q))
   \<and> (costFunc (env self) = ''StayUp'' \<and> vp_map self \<noteq> []
      \<and> is_float (path_cost curNode + 1)
      \<and> is_float (of_int (snd state2) / of_nat (length (vp_map self)))
      \<and> is_float (path_cost curNode + 1 + of_int (snd state2) / of_nat (length (vp_map self)))
      \<and> (searchType (env self) = ''UCS'' \<and> act = ''DOWN'' \<longrightarrow>
           is_float (path_cost curNode + 1
                     + of_int (snd state2) / of_nat (length (vp_map self)) + 5)) \<longrightarrow>
      VacuumPlanning_path_cost self curNode state1 act state2
        = Inr (Num (path_cost curNode + 1 + of_int (snd state2) / of_nat (length (vp_map self))
                    + (if searchType (env self) = ''UCS'' \<and> act = ''DOWN'' then 5 else 0))))
   \<and> (costFunc (env self) = ''StayUp'' \<and> vp_map self = [] \<longrightarrow>
      VacuumPlanning_path_cost self curNode state1 act state2 = Inl ZeroDivisionError)
   \<and> (\<exists>acts root.
        path_cost (follow (problem_of (VacuumPlanning_init (stayup_env ''UCS'') ''UCS'')) root acts)
        \<noteq> path_cost (follow (problem_of (VacuumPlanning_init (stayup_env ''A*'') ''A*'')) root acts))"
proof (intro conjI impI)
  assume "costFunc (env self) = ''StayUp''
      \<and> true_divide (snd state2) (int (length (vp_map self))) = Inr q
      \<and> to_float (path_cost curNode + 1) = Inr c"
  then show "VacuumPlanning_path_cost self curNode state1 act state2
        = Inr (if searchType (env self) = ''UCS'' \<and> act = ''DOWN''
               then number_add (float_add c q) 5 else float_add c q)"
    using StayUp_steps by blast
next
  let ?q = "of_int (snd state2) / of_nat (length (vp_map self)) :: rat"
  let ?c = "path_cost curNode + 1"
  assume a: "costFunc (env self) = ''StayUp'' \<and> vp_map self \<noteq> []
      \<and> is_float ?c \<and> is_float ?q \<and> is_float (?c + ?q)
      \<and> (searchType (env self) = ''UCS'' \<and> act = ''DOWN'' \<longrightarrow> is_float (?c + ?q + 5))"
  then have n: "int (length (vp_map self)) \<noteq> 0" by simp
  from a have "is_float (of_int (snd state2) / of_int (int (length (vp_map self))))" by simp
  from true_divide_exact [OF n this]
  have q: "true_divide (snd state2) (int (length (vp_map self))) = Inr ?q" by simp
  from a have c: "to_float ?c = Inr ?c" by (simp add: to_float_exact)
  from a have s: "float_add ?c ?q = Num (?c + ?q)" by (simp add: float_add_exact)
  from a have p: "searchType (env self) = ''UCS'' \<and> act = ''DOWN''
      \<Longrightarrow> number_add (Num (?c + ?q)) 5 = Num (?c + ?q + 5)"
    by (simp add: number_add_def float_add_exact)
  from a StayUp_steps [OF _ q c, of state1 act]
  have "VacuumPlanning_path_cost self curNode state1 act state2
           = Inr (if searchType (env self) = ''UCS'' \<and> act = ''DOWN''
                  then number_add (float_add ?c ?q) 5 else float_add ?c ?q)"
    by blast
  with s p show "VacuumPlanning_path_cost self curNode state1 act state2
        = Inr (Num (?c + ?q + (if searchType (env self) = ''UCS'' \<and> act = ''DOWN'' then 5 else 0)))"
    by (cases "searchType (env self) = ''UCS'' \<and> act = ''DOWN''") simp_all
next
  assume "costFunc (env self) = ''StayUp'' \<and> vp_map self = []"
  then show "VacuumPlanning_path_cost self curNode state1 act state2 = Inl ZeroDivisionError"
    by (simp add: VacuumPlanning_path_cost_def Let_def and_then_def true_divide_def)
next
  let ?root = "Node_init (0, 1) None None 0 :: (int \<times> int) node"
  have u: "path_cost (follow (problem_of (VacuumPlanning_init (stayup_env ''UCS'') ''UCS'')) ?root [''DOWN'']) = 6"
    by code_simp
  have a: "path_cost (follow (problem_of (VacuumPlanning_init (stayup_env ''A*'') ''A*'')) ?root [''DOWN'']) = 1"
    by code_simp
  from u a have "path_cost (follow (problem_of (VacuumPlanning_init (stayup_env ''UCS'') ''UCS'')) ?root [''DOWN''])
        \<noteq> path_cost (follow (problem_of (VacuumPlanning_init (stayup_env ''A*'') ''A*'')) ?root [''DOWN''])"
    by simp
  then show "\<exists>acts root.
        path_cost (follow (problem_of (VacuumPlanning_init (stayup_env ''UCS'') ''UCS'')) root acts)
        \<noteq> path_cost (follow (problem_of (VacuumPlanning_init (stayup_env ''A*'') ''A*'')) root acts)"
    by blast
qed

lemma third_quotient: "true_divide 1 3 = Inr (6004799503160661 / 18014398509481984)"
  by code_simp

lemma float_one: "to_float 1 = Inr 1"
  by code_simp

lemma third_sum:
  "float_add 1 (6004799503160661 / 18014398509481984) = Num (6004799503160661 / 4503599627370496)"
  by code_simp

lemma small_floats: "is_float 0" "is_float 1" "is_float 6"
  by code_simp+

theorem StayUp_cost_witness:
  "VacuumPlanning_path_cost (VacuumPlanning_init (h_env ''Manhattan'') ''A*'')
        (Node_init (0, 0) None None 0) (0, 0) ''UP'' (0, 1)
     = Inr (Num (6004799503160661 / 4503599627370496))
   \<and> VacuumPlanning_path_cost (VacuumPlanning_init (stayup_env ''UCS'') ''UCS'')
        (Node_init (0, 1) None None 0) (0, 1) ''DOWN'' (0, 0) = Inr (Num 6)
   \<and> VacuumPlanning_path_cost (VacuumPlanning_init (stayup_env ''A*'') ''A*'')
        (Node_init (0, 1) None None 0) (0, 1) ''DOWN'' (0, 0) = Inr (Num 1)
   \<and> VacuumPlanning_path_cost bare_vacuum
        (Node_init (0, 1) None None 0) (0, 1) ''DOWN'' (0, 0) = Inl ZeroDivisionError"
proof -
  let ?h = "VacuumPlanning_init (h_env ''Manhattan'') ''A*''"
  let ?u = "VacuumPlanning_init (stayup_env ''UCS'') ''UCS''"
  let ?a = "VacuumPlanning_init (stayup_env ''A*'') ''A*''"
  let ?root = "Node_init (0, 1) None None 0 :: (int \<times> int) node"
  let ?origin = "Node_init (0, 0) None None 0 :: (int \<times> int) node"
  have c: "costFunc (env ?h) = ''StayUp''" "costFunc (env ?u) = ''StayUp''"
    "costFunc (env ?a) = ''StayUp''" "costFunc (env bare_vacuum) = ''StayUp''"
    by (simp_all add: VacuumPlanning_init_def h_env_def stayup_env_def bare_vacuum_def)
  have l: "length (vp_map ?h) = 3" "length (vp_map ?u) = 1" "length (vp_map ?a) = 1"
    "vp_map bare_vacuum = []"
    by (simp_all add: VacuumPlanning_init_def h_env_def stayup_env_def vp_map_def bare_vacuum_def)
  have s: "searchType (env ?h) = ''A*''" "searchType (env ?u) = ''UCS''"
    "searchType (env ?a) = ''A*''"
    by (simp_all add: VacuumPlanning_init_def h_env_def stayup_env_def)
  have p: "path_cost ?root = 0" "path_cost ?origin = 0"
    by (simp_all add: Node_init_def)
  have m: "vp_map ?u \<noteq> []" "vp_map ?a \<noteq> []"
    using l by auto
  from StayUp_cost [of ?h "(0, 1)" "6004799503160661 / 18014398509481984" ?origin 1 "(0, 0)" "''UP''",
      THEN conjunct1]
  have 1: "VacuumPlanning_path_cost ?h ?origin (0, 0) ''UP'' (0, 1)
     = Inr (Num (6004799503160661 / 4503599627370496))"
    by (simp add: c l s p third_quotient float_one third_sum)
  from StayUp_cost [of ?u "(0, 0)" _ ?root _ "(0, 1)" "''DOWN''",
      THEN conjunct2, THEN conjunct1]
  have 2: "VacuumPlanning_path_cost ?u ?root (0, 1) ''DOWN'' (0, 0) = Inr (Num 6)"
    by (simp add: c l s p m small_floats)
  from StayUp_cost [of ?a "(0, 0)" _ ?root _ "(0, 1)" "''DOWN''",
      THEN conjunct2, THEN conjunct1]
  have 3: "VacuumPlanning_path_cost ?a ?root (0, 1) ''DOWN'' (0, 0) = Inr (Num 1)"
    by (simp add: c l s p m small_floats)
  from StayUp_cost [of bare_vacuum "(0, 0)" _ ?root _ "(0, 1)" "''DOWN''",
      THEN conjunct2, THEN conjunct2, THEN conjunct1]
  have 4: "VacuumPlanning_path_cost bare_vacuum ?root (0, 1) ''DOWN'' (0, 0) = Inl ZeroDivisionError"
    by (simp add: c l)
  from 1 2 3 4 show ?thesis by (intro conjI)
qed

subsection \<open>Nodes and paths\<close>

lemma child_node_sel [simp]:
  "state (child_node p n a) = result p (state n) a"
  "parent (child_node p n a) = Some n"
  "action (child_node p n a) = Some a"
  "depth (child_node p n a) = depth n + 1"
  "path_cost (child_node p n a) = path_cost_fn p n (state n) a (result p (state n) a)"
  by (simp_all add: child_node_def Node_init_def Let_def)

lemma Node_init_sel [simp]:
  "state (Node_init s par a c) = s"
  "parent (Node_init s par a c) = par"
  "action (Node_init s par a c) = a"
  "path_cost (Node_init s par a c) = c"
  "depth (Node_init s None a c) = 0"
  by (simp_all add: Node_init_def)

lemma path_back_unfold:
  "path_back n = n # (case parent n of None \<Rightarrow> [] | Some p \<Rightarrow> path_back p)"
  by (cases n) simp

lemma path_nonempty: "path n \<noteq> []"
  by (cases n) (simp add: path_def)

lemma path_child: "path (child_node p n a) = path n @ [child_node p n a]"
  by (simp add: path_def path_back_unfold [of "child_node p n a"])

lemma solution_child: "solution (child_node p n a) = solution n @ [Some a]"
  using path_nonempty [of n] by (cases "path n") (simp_all add: solution_def path_child)

lemma solution_root: "parent n = None \<Longrightarrow> solution n = []"
  by (cases n) (simp add: solution_def path_def)

lemma follow_snoc: "follow p n (acts @ [a]) = child_node p (follow p n acts) a"
  by (simp add: follow_def)

lemma follow_Nil [simp]: "follow p n [] = n"
  by (simp add: follow_def)

lemma follow_Cons: "follow p n (a # acts) = follow p (child_node p n a) acts"
  by (simp add: follow_def)

lemma solution_follow: "parent rt = None \<Longrightarrow> solution (follow p rt acts) = map Some acts"
  by (induction acts rule: rev_induct) (simp_all add: solution_root follow_snoc solution_child)

lemma depth_follow: "depth (follow p n acts) = depth n + length acts"
  by (induction acts rule: rev_induct) (simp_all add: follow_snoc)

lemma state_follow: "state (follow p n acts) = foldl (result p) (state n) acts"
  by (induction acts rule: rev_induct) (simp_all add: follow_snoc)

text \<open>
  Claim C7. A node built from a root by \<open>child_node\<close> along \<open>k\<close> actions has depth
  \<open>k\<close>; its \<open>solution()\<close> is the list of these \<open>k\<close> actions, and applying
  \<open>result\<close> to them in order from the state of the root gives the state of the node.
\<close>

theorem solution_replays:
  "depth (follow problem (Node_init s None a0 c0) acts) = length acts
   \<and> length (solution (follow problem (Node_init s None a0 c0) acts))
        = depth (follow problem (Node_init s None a0 c0) acts)
   \<and> solution (follow problem (Node_init s None a0 c0) acts) = map Some acts
   \<and> foldl (result problem) (state (Node_init s None a0 c0))
        (map the (solution (follow problem (Node_init s None a0 c0) acts)))
       = state (follow problem (Node_init s None a0 c0) acts)"
  by (simp add: solution_follow depth_follow state_follow comp_def)

subsection \<open>Replacement in the frontier of best-first search\<close>

lemma pq_contains_getitem: "pq_contains c front \<longleftrightarrow> pq_getitem front c \<noteq> None"
  by (induction front) (auto simp: pq_contains_def)

lemma pq_getitem_split:
  "pq_getitem front c = Some v \<Longrightarrow>
     \<exists>pre e post. front = pre @ e # post \<and> state (snd e) = state c \<and> fst e = v
        \<and> (\<forall>x \<in> set pre. state (snd x) \<noteq> state c) \<and> pq_delitem front c = pre @ post"
proof (induction front)
  case Nil
  then show ?case by simp
next
  case (Cons x front)
  show ?case
  proof (cases "state (snd x) = state c")
    case True
    with Cons.prems have "x # front = [] @ x # front \<and> state (snd x) = state c \<and> fst x = v
        \<and> (\<forall>y \<in> set []. state (snd y) \<noteq> state c) \<and> pq_delitem (x # front) c = [] @ front"
      by simp
    then show ?thesis by blast
  next
    case False
    with Cons.prems have "pq_getitem front c = Some v" by simp
    from Cons.IH [OF this] obtain pre e post where
      h: "front = pre @ e # post" "state (snd e) = state c" "fst e = v"
         "\<forall>y \<in> set pre. state (snd y) \<noteq> state c" "pq_delitem front c = pre @ post"
      by blast
    with False have "x # front = (x # pre) @ e # post \<and> state (snd e) = state c \<and> fst e = v
        \<and> (\<forall>y \<in> set (x # pre). state (snd y) \<noteq> state c)
        \<and> pq_delitem (x # front) c = (x # pre) @ post"
      by simp
    then show ?thesis by blast
  qed
qed

text \<open>
  Claim C1 (as amended). When the state of a new child is already in the frontier, the
  entry of that state (the first one, with value \<open>v\<close>) is removed and the child is
  appended in its place exactly when the child's \<open>f\<close> value is strictly smaller than
  \<open>v\<close>; with an equal or larger value the frontier is unchanged and the child is
  discarded.
\<close>

theorem frontier_replacement:
  "pq_getitem front c = Some v \<longrightarrow>
     (\<exists>pre e post. front = pre @ e # post \<and> state (snd e) = state c \<and> fst e = v
        \<and> (\<forall>x \<in> set pre. state (snd x) \<noteq> state c)
        \<and> bfgs_for f [c] front explore
            = (if f c < v then pre @ post @ [(f c, c)] else front))"
proof
  assume g: "pq_getitem front c = Some v"
  then have c: "pq_contains c front" by (simp add: pq_contains_getitem)
  from pq_getitem_split [OF g] obtain pre e post where
    h: "front = pre @ e # post" "state (snd e) = state c" "fst e = v"
       "\<forall>x \<in> set pre. state (snd x) \<noteq> state c" "pq_delitem front c = pre @ post"
    by blast
  have "bfgs_for f [c] front explore = (if f c < v then pre @ post @ [(f c, c)] else front)"
    using c g h(5) by (simp add: pq_append_def Let_def not_le)
  with h show "\<exists>pre e post. front = pre @ e # post \<and> state (snd e) = state c \<and> fst e = v
        \<and> (\<forall>x \<in> set pre. state (snd x) \<noteq> state c)
        \<and> bfgs_for f [c] front explore
            = (if f c < v then pre @ post @ [(f c, c)] else front)"
    by blast
qed

lemma via_nodes:
  "via_up_right = Node (1, 1) (Some (Node (0, 1) (Some (Node (0, 0) None None 0 0)) (Some ''UP'') 1 1))
                    (Some ''RIGHT'') 5 2"
  "via_right_up = Node (1, 1) (Some (Node (1, 0) (Some (Node (0, 0) None None 0 0)) (Some ''RIGHT'') 1 1))
                    (Some ''UP'') 5 2"
  "via_right = Node (1, 0) (Some (Node (0, 0) None None 0 0)) (Some ''RIGHT'') 1 1"
  "via_detour = Node (1, 0) (Some via_up_right) (Some ''DOWN'') 9 3"
  by code_simp+

theorem frontier_replacement_witness:
  "pq_getitem [(9, via_detour), (5, via_up_right)] via_right = Some 9
   \<and> bfgs_for path_cost [via_right] [(9, via_detour), (5, via_up_right)] {(0, 0)}
       = [(5, via_up_right), (1, via_right)]
   \<and> pq_getitem [(5, via_up_right)] via_right_up = Some 5
   \<and> bfgs_for path_cost [via_right_up] [(5, via_up_right)] {(0, 0)} = [(5, via_up_right)]"
proof -
  let ?F = "[(9, via_detour), (5, via_up_right)]"
  have g1: "pq_getitem ?F via_right = Some 9" by (simp add: via_nodes)
  have c1: "path_cost via_right = 1" by (simp add: via_nodes)
  from frontier_replacement [of ?F via_right 9 path_cost "{(0, 0)}"] g1
  obtain pre e post where
    h: "?F = pre @ e # post" "state (snd e) = state via_right"
       "\<forall>x \<in> set pre. state (snd x) \<noteq> state via_right"
       "bfgs_for path_cost [via_right] ?F {(0, 0)}
          = (if path_cost via_right < 9 then pre @ post @ [(path_cost via_right, via_right)] else ?F)"
    by blast
  have "pre = []"
  proof (cases pre)
    case Nil then show ?thesis .
  next
    case (Cons x xs)
    with h(1) have "x = (9, via_detour)" by simp
    with h(3) Cons show ?thesis by (simp add: via_nodes)
  qed
  with h(1) have "post = [(5, via_up_right)]" by simp
  with h(4) \<open>pre = []\<close> c1
  have 1: "bfgs_for path_cost [via_right] ?F {(0, 0)} = [(5, via_up_right), (1, via_right)]"
    by simp
  let ?G = "[(5, via_up_right)]"
  have g2: "pq_getitem ?G via_right_up = Some 5" by (simp add: via_nodes)
  have c2: "path_cost via_right_up = 5" by (simp add: via_nodes)
  from frontier_replacement [of ?G via_right_up 5 path_cost "{(0, 0)}"] g2 c2
  have 2: "bfgs_for path_cost [via_right_up] ?G {(0, 0)} = ?G"
    by auto
  from g1 1 g2 2 show ?thesis by blast
qed

text \<open>
  Claim C1 as stated fails for equal values: the node reached by RIGHT, UP has the state and
  the \<open>f\<close> value 5 of the entry reached by UP, RIGHT, and the entry stays.
\<close>

theorem equal_f_keeps_entry:
  "pq_contains via_right_up [(5, via_up_right)]
   \<and> pq_getitem [(5, via_up_right)] via_right_up = Some 5
   \<and> path_cost via_right_up = 5
   \<and> via_right_up \<noteq> via_up_right
   \<and> bfgs_for path_cost [via_right_up] [(5, via_up_right)] {(0, 0), (0, 1), (1, 0)}
       = [(5, via_up_right)]"
  by (simp add: via_nodes pq_contains_def)

subsection \<open>Order of the children in the uninformed searches\<close>





lemma subseq_remove1: "subseq (remove1 x xs) xs"
  by (induction xs) auto

lemma remove_when_subseq: "remove_when b a xs = Inr ys \<Longrightarrow> subseq ys xs"
  by (auto simp: remove_when_def list_remove_def subseq_remove1 split: if_splits)

lemma actions_slot_subseq: "actions_slot st slot xs = Inr ys \<Longrightarrow> subseq ys xs"
proof -
  assume a: "actions_slot st slot xs = Inr ys"
  show ?thesis
  proof (cases "kind slot = Wall")
    case False
    with a show ?thesis by (simp add: actions_slot_def)
  next
    case True
    with a obtain p1 p2 p3 where
      "remove_when (fst (location slot) = fst st \<and> snd (location slot) = snd st + 1) ''UP'' xs = Inr p1"
      "remove_when (fst (location slot) = fst st \<and> snd (location slot) = snd st - 1) ''DOWN'' p1 = Inr p2"
      "remove_when (fst (location slot) = fst st + 1 \<and> snd (location slot) = snd st) ''RIGHT'' p2 = Inr p3"
      "remove_when (fst (location slot) = fst st - 1 \<and> snd (location slot) = snd st) ''LEFT'' p3 = Inr ys"
      by (auto simp: actions_slot_def Let_def and_then_def split: sum.splits)
    then have "subseq p1 xs" "subseq p2 p1" "subseq p3 p2" "subseq ys p3"
      by (auto dest: remove_when_subseq)
    then show ?thesis by (meson subseq_order.order_trans)
  qed
qed

lemma actions_loop_subseq: "actions_loop st slots xs = Inr ys \<Longrightarrow> subseq ys xs"
proof (induction slots arbitrary: xs)
  case Nil
  then show ?case by simp
next
  case (Cons slot slots)
  then obtain zs where z: "actions_slot st slot xs = Inr zs" "actions_loop st slots zs = Inr ys"
    by (auto simp: and_then_def split: sum.splits)
  from Cons.IH [OF z(2)] actions_slot_subseq [OF z(1)] show ?case
    by (meson subseq_order.order_trans)
qed

lemma VacuumPlanning_actions_order:
  "VacuumPlanning_actions self st = Inr acts
     \<Longrightarrow> subseq acts [''UP'', ''DOWN'', ''LEFT'', ''RIGHT'']"
  unfolding VacuumPlanning_actions_def by (rule actions_loop_subseq)













subsection \<open>The reflex rule\<close>

lemma reflex_for_first:
  "ns = pre @ n # post \<Longrightarrow> VacuumPlanning_goal_test p (state n)
     \<Longrightarrow> \<forall>m \<in> set pre. \<not> VacuumPlanning_goal_test p (state m)
     \<Longrightarrow> reflex_for p ns = Some n"
  by (induction pre arbitrary: ns) auto

lemma reflex_for_none:
  "\<forall>m \<in> set ns. \<not> VacuumPlanning_goal_test p (state m) \<Longrightarrow> reflex_for p ns = None"
  by (induction ns) auto

lemma child_node_fields:
  assumes "VacuumPlanning_child_node p n a = Inr c"
  shows "action c = Some a \<and> state c = fst (VacuumPlanning_result p (state n) a)
         \<and> parent c = Some n \<and> depth c = depth n + 1"
  using assms
  by (auto simp: VacuumPlanning_child_node_def and_then_def Let_def Node_init_def
           split: sum.splits number.splits)

lemma child_nodes_fields:
  "child_nodes p n acts = Inr ns \<Longrightarrow>
     map action ns = map Some acts
     \<and> map state ns = map (\<lambda>a. fst (VacuumPlanning_result p (state n) a)) acts
     \<and> (\<forall>c \<in> set ns. parent c = Some n \<and> depth c = depth n + 1)"
proof (induction acts arbitrary: ns)
  case Nil
  then show ?case by simp
next
  case (Cons a acts)
  from Cons.prems obtain c cs where c: "VacuumPlanning_child_node p n a = Inr c"
    and cs: "child_nodes p n acts = Inr cs" and ns: "ns = c # cs"
    by (auto simp: and_then_def split: sum.splits)
  from child_node_fields [OF c] Cons.IH [OF cs] ns show ?case by simp
qed

lemma child_nodes_distinct:
  assumes "child_nodes p n acts = Inr ns" and "distinct acts"
  shows "distinct ns"
proof -
  from child_nodes_fields [OF assms(1)] have "map action ns = map Some acts" by blast
  moreover from assms(2) have "distinct (map Some acts)" by (simp add: distinct_map)
  ultimately have "distinct (map action ns)" by simp
  then show ?thesis by (simp add: distinct_map)
qed

lemma subseq_distinct: "subseq xs ys \<Longrightarrow> distinct ys \<Longrightarrow> distinct xs"
  by (induction rule: list_emb.induct) (auto dest: list_emb_set)

lemma actions_distinct:
  assumes "VacuumPlanning_actions p st = Inr acts"
  shows "distinct acts"
proof -
  from VacuumPlanning_actions_order [OF assms]
  have "subseq acts [''UP'', ''DOWN'', ''LEFT'', ''RIGHT'']" .
  moreover have "distinct [''UP'', ''DOWN'', ''LEFT'', ''RIGHT'']" by simp
  ultimately show ?thesis by (rule subseq_distinct)
qed

lemma count_indices:
  "length (filter (\<lambda>d. xs ! d = x) [0..<length xs]) = count_list xs x"
proof -
  have "length (filter (\<lambda>d. xs ! d = x) [0..<length xs])
          = length (filter (\<lambda>y. y = x) (map (nth xs) [0..<length xs]))"
    by (simp add: filter_map comp_def)
  also have "\<dots> = length (filter (\<lambda>y. y = x) xs)" by (simp add: map_nth)
  also have "\<dots> = count_list xs x"
    by (induction xs) auto
  finally show ?thesis .
qed

lemma random_choice_draw:
  "d < length xs \<Longrightarrow>
     random_choice (with_draw g d) xs = (Inr (xs ! d), (with_draw g d)\<lparr>used := used g + 1\<rparr>)"
  by (auto simp: random_choice_def with_draw_def)

lemma count_list_distinct: "distinct xs \<Longrightarrow> x \<in> set xs \<Longrightarrow> count_list xs x = 1"
  by (induction xs) (auto simp: count_list_0_iff)

lemma reflex_neighbors_fields:
  assumes "VacuumPlanning_expand p n = Inr ns"
  shows "\<exists>acts. VacuumPlanning_actions p (state n) = Inr acts
           \<and> map action ns = map Some (sort_key left_key acts)
           \<and> map state ns
               = map (\<lambda>a. fst (VacuumPlanning_result p (state n) a)) (sort_key left_key acts)
           \<and> (\<forall>c \<in> set ns. parent c = Some n \<and> depth c = depth n + 1)
           \<and> distinct ns"
proof -
  from assms obtain acts where acts: "VacuumPlanning_actions p (state n) = Inr acts"
    and cs: "child_nodes p n (sort_key left_key acts) = Inr ns"
    by (auto simp: VacuumPlanning_expand_def and_then_def split: sum.splits)
  from actions_distinct [OF acts] have "distinct (sort_key left_key acts)" by simp
  from child_nodes_distinct [OF cs this] child_nodes_fields [OF cs] acts
  show ?thesis by blast
qed

lemma reflex_draw:
  assumes ns: "reflex_neighbors self = Inr ns"
    and nogoal: "\<forall>m \<in> set ns. \<not> VacuumPlanning_goal_test self (state m)"
    and d: "d < length ns"
  shows "reflexAgentSearch self (with_draw g d)
           = (Inr (ns ! d, None), (with_draw g d)\<lparr>used := used g + 1\<rparr>)"
proof -
  from nogoal have "reflex_for self ns = None" by (rule reflex_for_none)
  with ns random_choice_draw [OF d, of g] show ?thesis
    by (simp add: reflexAgentSearch_def Let_def)
qed

lemma reflex_probability:
  assumes ns: "reflex_neighbors self = Inr ns"
    and nogoal: "\<forall>m \<in> set ns. \<not> VacuumPlanning_goal_test self (state m)"
  shows "probability (length ns)
           (\<lambda>d. fst (reflexAgentSearch self (with_draw g d)) = Inr (x, None))
         = of_nat (count_list ns x) / of_nat (length ns)"
proof -
  have "filter (\<lambda>d. fst (reflexAgentSearch self (with_draw g d)) = Inr (x, None)) [0..<length ns]
          = filter (\<lambda>d. ns ! d = x) [0..<length ns]"
    by (rule filter_cong [OF refl]) (simp add: reflex_draw [OF ns nogoal])
  then show ?thesis by (simp add: probability_def count_indices)
qed

text \<open>
  Claim C5. The reflex rule expands the node of the current state once: when the expansion
  raises, so does the rule; otherwise the neighbours are the children of that node, one for
  each action, LEFT first. If some neighbour satisfies the goal test, the rule returns the
  first such neighbour in expansion order and leaves the random generator untouched. If none
  does, it takes one draw of the generator and returns the neighbour at the drawn index
  (IndexError when there is no neighbour); as the index is drawn uniformly, every neighbour
  is returned with the same probability, one over the number of neighbours. The explored
  set is \<open>None\<close> in every return.
\<close>

theorem reflex_rule:
  "(reflex_neighbors self = Inl e \<longrightarrow> reflexAgentSearch self g = (Inl e, g))
   \<and> (reflex_neighbors self = Inr ns \<longrightarrow>
        (\<exists>acts. VacuumPlanning_actions self (vp_state self) = Inr acts
           \<and> map action ns = map Some (sort_key left_key acts)
           \<and> map state ns
               = map (\<lambda>a. fst (VacuumPlanning_result self (vp_state self) a))
                   (sort_key left_key acts))
        \<and> (\<forall>n \<in> set ns. parent n = Some (Node_init (vp_state self) None None 0) \<and> depth n = 1)
        \<and> (\<forall>pre neigh post.
              ns = pre @ neigh # post \<and> VacuumPlanning_goal_test self (state neigh)
              \<and> (\<forall>m \<in> set pre. \<not> VacuumPlanning_goal_test self (state m))
              \<longrightarrow> reflexAgentSearch self g = (Inr (neigh, None), g))
        \<and> ((\<forall>m \<in> set ns. \<not> VacuumPlanning_goal_test self (state m)) \<longrightarrow>
              (ns = [] \<longrightarrow> reflexAgentSearch self g = (Inl IndexError, g))
              \<and> (ns \<noteq> [] \<longrightarrow> reflexAgentSearch self g
                    = (Inr (ns ! (draws g (used g) mod length ns), None), g\<lparr>used := used g + 1\<rparr>))
              \<and> (\<forall>d < length ns. reflexAgentSearch self (with_draw g d)
                    = (Inr (ns ! d, None), (with_draw g d)\<lparr>used := used g + 1\<rparr>))
              \<and> (\<forall>n \<in> set ns.
                    probability (length ns)
                      (\<lambda>d. fst (reflexAgentSearch self (with_draw g d)) = Inr (n, None))
                    = 1 / of_nat (length ns))))"
proof (intro conjI impI)
  assume "reflex_neighbors self = Inl e"
  then show "reflexAgentSearch self g = (Inl e, g)"
    by (simp add: reflexAgentSearch_def Let_def)
next
  assume ns: "reflex_neighbors self = Inr ns"
  from reflex_neighbors_fields [OF ns]
  show "\<exists>acts. VacuumPlanning_actions self (vp_state self) = Inr acts
           \<and> map action ns = map Some (sort_key left_key acts)
           \<and> map state ns
               = map (\<lambda>a. fst (VacuumPlanning_result self (vp_state self) a))
                   (sort_key left_key acts)"
    by (auto simp: Node_init_def)
next
  assume ns: "reflex_neighbors self = Inr ns"
  from reflex_neighbors_fields [OF ns]
  show "\<forall>n \<in> set ns. parent n = Some (Node_init (vp_state self) None None 0) \<and> depth n = 1"
    by (auto simp: Node_init_def)
next
  assume ns: "reflex_neighbors self = Inr ns"
  show "\<forall>pre neigh post.
          ns = pre @ neigh # post \<and> VacuumPlanning_goal_test self (state neigh)
          \<and> (\<forall>m \<in> set pre. \<not> VacuumPlanning_goal_test self (state m))
          \<longrightarrow> reflexAgentSearch self g = (Inr (neigh, None), g)"
  proof (intro allI impI)
    fix pre neigh post
    assume "ns = pre @ neigh # post \<and> VacuumPlanning_goal_test self (state neigh)
          \<and> (\<forall>m \<in> set pre. \<not> VacuumPlanning_goal_test self (state m))"
    then have "reflex_for self ns = Some neigh"
      using reflex_for_first [of ns pre neigh post self] by blast
    with ns show "reflexAgentSearch self g = (Inr (neigh, None), g)"
      by (simp add: reflexAgentSearch_def Let_def)
  qed
next
  assume ns: "reflex_neighbors self = Inr ns"
    and nogoal: "\<forall>m \<in> set ns. \<not> VacuumPlanning_goal_test self (state m)"
  from nogoal have none: "reflex_for self ns = None" by (rule reflex_for_none)
  show "ns = [] \<Longrightarrow> reflexAgentSearch self g = (Inl IndexError, g)"
    using ns none by (simp add: reflexAgentSearch_def Let_def random_choice_def)
  show "ns \<noteq> [] \<Longrightarrow> reflexAgentSearch self g
          = (Inr (ns ! (draws g (used g) mod length ns), None), g\<lparr>used := used g + 1\<rparr>)"
    using ns none by (simp add: reflexAgentSearch_def Let_def random_choice_def)
  show "\<forall>d < length ns. reflexAgentSearch self (with_draw g d)
          = (Inr (ns ! d, None), (with_draw g d)\<lparr>used := used g + 1\<rparr>)"
    using reflex_draw [OF ns nogoal] by blast
  show "\<forall>n \<in> set ns.
          probability (length ns)
            (\<lambda>d. fst (reflexAgentSearch self (with_draw g d)) = Inr (n, None))
          = 1 / of_nat (length ns)"
  proof
    fix n assume n: "n \<in> set ns"
    from reflex_neighbors_fields [OF ns] have "distinct ns" by blast
    from count_list_distinct [OF this n] reflex_probability [OF ns nogoal, of g n]
    show "probability (length ns)
            (\<lambda>d. fst (reflexAgentSearch self (with_draw g d)) = Inr (n, None))
          = 1 / of_nat (length ns)"
      by simp
  qed
qed

lemma open_neighbors:
  "reflex_neighbors open_vacuum =
     Inr ([] @ Node (-1, 0) (Some (Node (0, 0) None None 0 0)) (Some ''LEFT'') 1 1 #
     [Node (0, 1) (Some (Node (0, 0) None None 0 0)) (Some ''UP'') 1 1,
      Node (0, -1) (Some (Node (0, 0) None None 0 0)) (Some ''DOWN'') 1 1,
      Node (1, 0) (Some (Node (0, 0) None None 0 0)) (Some ''RIGHT'') 1 1])"
  by code_simp

lemma open_goal: "VacuumPlanning_goal_test open_vacuum (-1, 0)"
  by code_simp

lemma turn_neighbors:
  "reflex_neighbors turn_vacuum =
     Inr [Node (0, 1) (Some (Node (0, 0) None None 0 0)) (Some ''UP'') 1 1,
          Node (1, 0) (Some (Node (0, 0) None None 0 0)) (Some ''RIGHT'') 1 1]"
  by code_simp

lemma turn_no_goal:
  "\<not> VacuumPlanning_goal_test turn_vacuum (0, 1)" "\<not> VacuumPlanning_goal_test turn_vacuum (1, 0)"
  by code_simp+

lemma bare_neighbors: "reflex_neighbors bare_vacuum = Inl ZeroDivisionError"
  by code_simp

lemma doubled_neighbors: "reflex_neighbors doubled_vacuum = Inl ValueError"
  by code_simp

theorem reflex_rule_witness:
  "reflexAgentSearch open_vacuum threes
     = (Inr (Node (-1, 0) (Some (Node (0, 0) None None 0 0)) (Some ''LEFT'') 1 1, None), threes)
   \<and> reflexAgentSearch turn_vacuum threes
     = (Inr (Node (1, 0) (Some (Node (0, 0) None None 0 0)) (Some ''RIGHT'') 1 1, None),
        threes\<lparr>used := 1\<rparr>)
   \<and> probability 2 (\<lambda>d. fst (reflexAgentSearch turn_vacuum (with_draw threes d))
        = Inr (Node (0, 1) (Some (Node (0, 0) None None 0 0)) (Some ''UP'') 1 1, None)) = 1 / 2
   \<and> probability 2 (\<lambda>d. fst (reflexAgentSearch turn_vacuum (with_draw threes d))
        = Inr (Node (1, 0) (Some (Node (0, 0) None None 0 0)) (Some ''RIGHT'') 1 1, None)) = 1 / 2
   \<and> reflexAgentSearch bare_vacuum threes = (Inl ZeroDivisionError, threes)
   \<and> reflexAgentSearch doubled_vacuum threes = (Inl ValueError, threes)"
proof -
  let ?left = "Node (-1, 0) (Some (Node (0, 0) None None 0 0)) (Some ''LEFT'') 1 1 :: (int \<times> int) node"
  let ?up = "Node (0, 1) (Some (Node (0, 0) None None 0 0)) (Some ''UP'') 1 1 :: (int \<times> int) node"
  let ?right = "Node (1, 0) (Some (Node (0, 0) None None 0 0)) (Some ''RIGHT'') 1 1 :: (int \<times> int) node"
  let ?down = "Node (0, -1) (Some (Node (0, 0) None None 0 0)) (Some ''DOWN'') 1 1 :: (int \<times> int) node"
  have on: "reflex_neighbors open_vacuum = Inr [?left, ?up, ?down, ?right]"
    using open_neighbors by simp
  note o = reflex_rule [of open_vacuum _ threes "[?left, ?up, ?down, ?right]",
      THEN conjunct2, rule_format, OF on]
  note o3 = o [THEN conjunct2, THEN conjunct2, THEN conjunct1, rule_format,
      of "[]" ?left "[?up, ?down, ?right]"]
  have 1: "reflexAgentSearch open_vacuum threes = (Inr (?left, None), threes)"
    by (rule o3) (simp add: open_goal)
  have n: "\<forall>m \<in> set [?up, ?right]. \<not> VacuumPlanning_goal_test turn_vacuum (state m)"
    by (simp add: turn_no_goal)
  note r = reflex_rule [of turn_vacuum _ threes "[?up, ?right]", THEN conjunct2, rule_format,
      OF turn_neighbors]
  note r4 = r [THEN conjunct2, THEN conjunct2, THEN conjunct2, rule_format, OF n [rule_format]]
  have i: "[?up, ?right] ! (draws threes (used threes) mod length [?up, ?right]) = ?right"
    by code_simp
  have u: "used threes + 1 = 1"
    by (simp add: threes_def)
  from r4 [THEN conjunct2, THEN conjunct1]
  have 2: "reflexAgentSearch turn_vacuum threes = (Inr (?right, None), threes\<lparr>used := 1\<rparr>)"
    unfolding i u by simp
  have l: "length [?up, ?right] = 2"
    by simp
  note p = r4 [THEN conjunct2, THEN conjunct2, THEN conjunct2, rule_format, unfolded l]
  from p [of ?up] have 3: "probability 2 (\<lambda>d. fst (reflexAgentSearch turn_vacuum (with_draw threes d))
        = Inr (?up, None)) = 1 / 2"
    by simp
  from p [of ?right] have 4: "probability 2 (\<lambda>d. fst (reflexAgentSearch turn_vacuum (with_draw threes d))
        = Inr (?right, None)) = 1 / 2"
    by simp
  have 5: "reflexAgentSearch bare_vacuum threes = (Inl ZeroDivisionError, threes)"
    by (rule reflex_rule [of bare_vacuum ZeroDivisionError threes, THEN conjunct1, rule_format,
          OF bare_neighbors])
  have 6: "reflexAgentSearch doubled_vacuum threes = (Inl ValueError, threes)"
    by (rule reflex_rule [of doubled_vacuum ValueError threes, THEN conjunct1, rule_format,
          OF doubled_neighbors])
  from 1 2 3 4 5 6 show ?thesis by (intro conjI)
qed

subsection \<open>The priority queue\<close>

lemma entry_less_not: "\<not> entry_less x m \<Longrightarrow> fst m \<le> fst x"
  by (auto simp: entry_less_def)

lemma entry_less_le: "entry_less x m \<Longrightarrow> fst x \<le> fst m"
  by (auto simp: entry_less_def)

lemma pq_min_in: "pq_min m es \<in> insert m (set es)"
  by (induction es arbitrary: m) auto

lemma pq_min_le_start: "fst (pq_min m es) \<le> fst m"
proof (induction es arbitrary: m)
  case Nil
  show ?case by simp
next
  case (Cons x es)
  show ?case
  proof (cases "entry_less x m")
    case True
    then have "fst (pq_min x es) \<le> fst m"
      using Cons.IH [of x] entry_less_le [of x m] by linarith
    with True show ?thesis by simp
  next
    case False
    then show ?thesis using Cons.IH [of m] by simp
  qed
qed

lemma pq_min_least: "x \<in> set es \<Longrightarrow> fst (pq_min m es) \<le> fst x"
proof (induction es arbitrary: m)
  case Nil
  then show ?case by simp
next
  case (Cons y es)
  let ?m' = "if entry_less y m then y else m"
  show ?case
  proof (cases "x = y")
    case True
    have "fst ?m' \<le> fst y" by (auto dest: entry_less_not)
    then have "fst (pq_min ?m' es) \<le> fst y"
      using pq_min_le_start [of ?m' es] by linarith
    with True show ?thesis by simp
  next
    case False
    with Cons.prems have "x \<in> set es" by simp
    from Cons.IH [OF this, of ?m'] show ?thesis by simp
  qed
qed

lemma pq_pop_node: "\<exists>m \<in> set (e # es). fst (pq_pop e es) = snd m
     \<and> snd (pq_pop e es) = remove1 m (e # es) \<and> (\<forall>x \<in> set (e # es). fst m \<le> fst x)"
proof -
  let ?m = "pq_min e es"
  have "?m \<in> set (e # es)" using pq_min_in [of e es] by simp
  moreover have "\<forall>x \<in> set (e # es). fst ?m \<le> fst x"
    using pq_min_least [of _ es e] pq_min_le_start [of e es] by auto
  ultimately show ?thesis by (auto simp: pq_pop_def Let_def)
qed

lemma distinct_map_remove1: "distinct (map g xs) \<Longrightarrow> distinct (map g (remove1 m xs))"
proof (induction xs)
  case Nil
  then show ?case by simp
next
  case (Cons x xs)
  have "g ` set (remove1 m xs) \<subseteq> g ` set xs" using set_remove1_subset [of m xs] by blast
  with Cons show ?case by auto
qed

lemma distinct_map_remove1_neq:
  "distinct (map g xs) \<Longrightarrow> m \<in> set xs \<Longrightarrow> x \<in> set (remove1 m xs) \<Longrightarrow> g x \<noteq> g m"
proof (induction xs)
  case Nil
  then show ?case by simp
next
  case (Cons y xs)
  show ?case
  proof (cases "m = y")
    case True
    with Cons.prems have "x \<in> set xs" "g y \<notin> g ` set xs" by auto
    then have "g x \<noteq> g y" by (metis imageI)
    with True show ?thesis by simp
  next
    case False
    with Cons.prems have m: "m \<in> set xs" and d: "distinct (map g xs)" and gy: "g y \<notin> g ` set xs"
      by auto
    from False Cons.prems have "x = y \<or> x \<in> set (remove1 m xs)" by auto
    then show ?thesis
    proof
      assume "x = y"
      with gy m show ?thesis by (metis imageI)
    next
      assume "x \<in> set (remove1 m xs)"
      from Cons.IH [OF d m this] show ?thesis .
    qed
  qed
qed

subsection \<open>One child in the loop of best-first search\<close>

lemma frontier_step_eq:
  "frontier_step f c front explore =
     (if state c \<notin> explore \<and> \<not> pq_contains c front then front @ [(f c, c)]
      else if pq_contains c front \<and> f c < the (pq_getitem front c)
        then pq_delitem front c @ [(f c, c)]
      else front)"
  by (simp add: frontier_step_def Let_def pq_append_def not_le)

lemma bfgs_for_Cons:
  "bfgs_for f (c # cs) front explore = bfgs_for f cs (frontier_step f c front explore) explore"
  by (simp add: frontier_step_def Let_def)

lemma covered_mono: "covered front s b \<Longrightarrow> b \<le> b' \<Longrightarrow> covered front s b'"
  unfolding covered_def by (meson order_trans)

lemma covered_one:
  assumes "covered front s b"
  shows "covered (frontier_step f c front explore) s b"
proof -
  from assms obtain x where x: "x \<in> set front" "state (snd x) = s" "fst x \<le> b"
    unfolding covered_def by blast
  consider (app) "state c \<notin> explore \<and> \<not> pq_contains c front"
    | (rep) "\<not> (state c \<notin> explore \<and> \<not> pq_contains c front)"
            "pq_contains c front \<and> f c < the (pq_getitem front c)"
    | (keep) "\<not> (state c \<notin> explore \<and> \<not> pq_contains c front)"
             "\<not> (pq_contains c front \<and> f c < the (pq_getitem front c))"
    by blast
  then show ?thesis
  proof cases
    case app
    then have "frontier_step f c front explore = front @ [(f c, c)]" by (simp add: frontier_step_eq)
    with x show ?thesis unfolding covered_def by auto
  next
    case rep
    then obtain v where v: "pq_getitem front c = Some v" "f c < v"
      by (auto simp: pq_contains_getitem)
    from pq_getitem_split [OF v(1)] obtain pre e post where
      h: "front = pre @ e # post" "state (snd e) = state c" "fst e = v"
         "pq_delitem front c = pre @ post"
      by blast
    from rep have S: "frontier_step f c front explore = pre @ post @ [(f c, c)]"
      by (simp add: frontier_step_eq h(4))
    show ?thesis
    proof (cases "x = e")
      case True
      with x h v have "state c = s" "f c \<le> b" by auto
      then show ?thesis unfolding covered_def S by auto
    next
      case False
      with x h(1) have "x \<in> set (pre @ post @ [(f c, c)])" by auto
      with x show ?thesis unfolding covered_def S by blast
    qed
  next
    case keep
    then have "frontier_step f c front explore = front" by (auto simp: frontier_step_eq)
    with assms show ?thesis by simp
  qed
qed

lemma child_covered_one:
  assumes "state c \<notin> explore"
  shows "covered (frontier_step f c front explore) (state c) (f c)"
proof (cases "pq_contains c front")
  case False
  with assms have "frontier_step f c front explore = front @ [(f c, c)]" by (simp add: frontier_step_eq)
  then show ?thesis unfolding covered_def by auto
next
  case True
  then obtain v where v: "pq_getitem front c = Some v" by (auto simp: pq_contains_getitem)
  from pq_getitem_split [OF v] obtain pre e post where
    h: "front = pre @ e # post" "state (snd e) = state c" "fst e = v"
       "pq_delitem front c = pre @ post"
    by blast
  show ?thesis
  proof (cases "f c < v")
    case lt: True
    with True v have "frontier_step f c front explore = pre @ post @ [(f c, c)]"
      by (simp add: frontier_step_eq h(4))
    then show ?thesis unfolding covered_def by auto
  next
    case False
    with True v have "frontier_step f c front explore = front" by (simp add: frontier_step_eq)
    moreover from False h have "e \<in> set front" "state (snd e) = state c" "fst e \<le> f c" by auto
    ultimately show ?thesis unfolding covered_def by auto
  qed
qed

lemma pq_contains_entry: "pq_contains c front \<Longrightarrow> \<exists>e \<in> set front. state (snd e) = state c"
  by (simp add: pq_contains_def)

lemma set_pq_delitem: "set (pq_delitem front c) \<subseteq> set front"
  by (induction front) auto

lemma entries_one:
  assumes "\<forall>e \<in> set front. state (snd e) \<notin> explore"
    and "x \<in> set (frontier_step f c front explore)"
  shows "x \<in> set front \<or> (x = (f c, c) \<and> state c \<notin> explore)"
proof -
  have c: "pq_contains c front \<Longrightarrow> state c \<notin> explore"
    using assms(1) pq_contains_entry [of c front] by metis
  from assms(2) have "x \<in> set front \<or> x \<in> set (pq_delitem front c)
      \<or> (x = (f c, c) \<and> (state c \<notin> explore \<or> pq_contains c front))"
    by (auto simp: frontier_step_eq split: if_splits)
  with c set_pq_delitem [of front c] show ?thesis by blast
qed

lemma distinct_one:
  assumes "distinct (map (\<lambda>e. state (snd e)) front)"
  shows "distinct (map (\<lambda>e. state (snd e)) (frontier_step f c front explore))"
proof -
  consider (app) "state c \<notin> explore \<and> \<not> pq_contains c front"
    | (rep) "\<not> (state c \<notin> explore \<and> \<not> pq_contains c front)"
            "pq_contains c front \<and> f c < the (pq_getitem front c)"
    | (keep) "\<not> (state c \<notin> explore \<and> \<not> pq_contains c front)"
             "\<not> (pq_contains c front \<and> f c < the (pq_getitem front c))"
    by blast
  then show ?thesis
  proof cases
    case app
    then have "frontier_step f c front explore = front @ [(f c, c)]" by (simp add: frontier_step_eq)
    moreover from app have "state c \<notin> (\<lambda>e. state (snd e)) ` set front"
      by (auto simp: pq_contains_def)
    ultimately show ?thesis using assms by simp
  next
    case rep
    then obtain v where v: "pq_getitem front c = Some v"
      by (auto simp: pq_contains_getitem)
    from pq_getitem_split [OF v] obtain pre e post where
      h: "front = pre @ e # post" "state (snd e) = state c"
         "pq_delitem front c = pre @ post"
      by blast
    from rep have S: "frontier_step f c front explore = pre @ post @ [(f c, c)]"
      by (simp add: frontier_step_eq h(3))
    from assms h(1,2) have "distinct (map (\<lambda>e. state (snd e)) (pre @ post))"
      "state c \<notin> (\<lambda>e. state (snd e)) ` set (pre @ post)"
      by auto
    then show ?thesis unfolding S by (auto simp: image_Un)
  next
    case keep
    then have "frontier_step f c front explore = front" by (auto simp: frontier_step_eq)
    with assms show ?thesis by simp
  qed
qed

subsection \<open>All children\<close>

lemma covered_for: "covered front s b \<Longrightarrow> covered (bfgs_for f cs front explore) s b"
proof (induction cs arbitrary: front)
  case Nil
  then show ?case by simp
next
  case (Cons c cs)
  from Cons.IH [OF covered_one [OF Cons.prems, of f c explore]]
  show ?case by (simp only: bfgs_for_Cons)
qed

lemma child_covered_for:
  "c \<in> set cs \<Longrightarrow> state c \<notin> explore
     \<Longrightarrow> covered (bfgs_for f cs front explore) (state c) (f c)"
proof (induction cs arbitrary: front)
  case Nil
  then show ?case by simp
next
  case (Cons d cs)
  show ?case
  proof (cases "c = d")
    case True
    from child_covered_one [OF Cons.prems(2), of f front]
    have "covered (frontier_step f c front explore) (state c) (f c)" .
    from covered_for [OF this, of f cs explore] True show ?thesis
      by (simp only: bfgs_for_Cons)
  next
    case False
    with Cons.prems have "c \<in> set cs" by simp
    from Cons.IH [OF this Cons.prems(2), of "frontier_step f d front explore"]
    show ?thesis by (simp only: bfgs_for_Cons)
  qed
qed

lemma entries_for:
  "\<forall>e \<in> set front. state (snd e) \<notin> explore \<Longrightarrow> x \<in> set (bfgs_for f cs front explore)
     \<Longrightarrow> x \<in> set front \<or> (\<exists>c \<in> set cs. x = (f c, c) \<and> state c \<notin> explore)"
proof (induction cs arbitrary: front)
  case Nil
  then show ?case by simp
next
  case (Cons d cs)
  let ?S = "frontier_step f d front explore"
  have a: "\<forall>e \<in> set ?S. state (snd e) \<notin> explore"
  proof
    fix e assume "e \<in> set ?S"
    from entries_one [OF Cons.prems(1) this] Cons.prems(1)
    show "state (snd e) \<notin> explore" by auto
  qed
  from Cons.prems(2) have "x \<in> set (bfgs_for f cs ?S explore)" by (simp only: bfgs_for_Cons)
  from Cons.IH [OF a this]
  have "x \<in> set ?S \<or> (\<exists>c \<in> set cs. x = (f c, c) \<and> state c \<notin> explore)" .
  then show ?case
  proof
    assume "x \<in> set ?S"
    from entries_one [OF Cons.prems(1) this] show ?thesis by auto
  next
    assume "\<exists>c \<in> set cs. x = (f c, c) \<and> state c \<notin> explore"
    then show ?thesis by auto
  qed
qed

lemma distinct_for:
  "distinct (map (\<lambda>e. state (snd e)) front)
     \<Longrightarrow> distinct (map (\<lambda>e. state (snd e)) (bfgs_for f cs front explore))"
proof (induction cs arbitrary: front)
  case Nil
  then show ?case by simp
next
  case (Cons c cs)
  from Cons.IH [OF distinct_one [OF Cons.prems, of f c explore]]
  show ?case by (simp only: bfgs_for_Cons)
qed

end
